theory Spec2Isabelle
  imports Complex_Main "HOL-Library.Multiset"
begin

section \<open>Values, errors and the array operations the estimator calls\<close>

text \<open>
  The estimator of \<^verbatim>\<open>doatools/estimation/core.py\<close> is numerical Python. Its arrays
  are modelled as lists (a flat list in C order together with a shape), its integers as
  \<^typ>\<open>int\<close> where the sign matters (the source count \<open>k\<close> and the slice bounds built
  from it) and as \<^typ>\<open>nat\<close> where they are positions in an array, its spectrum values
  as \<^typ>\<open>real\<close> (no NaN), and every exception as a value of \<open>py_error\<close>.
\<close>

datatype py_error = ValueError | IndexError | LinAlgError | CollaboratorError

record ndarray =
  nd_shape :: "nat list"
  nd_data :: "real list"

definition ndim :: "ndarray \<Rightarrow> nat" where
  "ndim x = length (nd_shape x)"

text \<open>\<^verbatim>\<open>sp.reshape(shape)\<close>: the sizes must agree, otherwise numpy raises ValueError.\<close>

definition reshape :: "real list \<Rightarrow> nat list \<Rightarrow> py_error + ndarray" where
  "reshape xs shp =
     (if length xs = prod_list shp then Inr \<lparr>nd_shape = shp, nd_data = xs\<rparr>
      else Inl ValueError)"

text \<open>
  Python slices with one bound, \<^verbatim>\<open>xs[start:]\<close> and \<^verbatim>\<open>xs[:stop]\<close>: a negative bound
  counts from the end, and a bound outside the list is clipped, never an error.
\<close>

definition slice_bound :: "nat \<Rightarrow> int \<Rightarrow> nat" where
  "slice_bound n b = (if b < 0 then nat (max 0 (b + int n)) else nat (min b (int n)))"

definition slice_from :: "'a list \<Rightarrow> int \<Rightarrow> 'a list" where
  "slice_from xs start = drop (slice_bound (length xs) start) xs"

definition slice_to :: "'a list \<Rightarrow> int \<Rightarrow> 'a list" where
  "slice_to xs stop = take (slice_bound (length xs) stop) xs"

text \<open>
  \<^verbatim>\<open>np.ravel_multi_index\<close> and \<^verbatim>\<open>np.unravel_index\<close> for one point, in C order.
  Both raise ValueError on a coordinate or an index outside the shape; \<open>in_bounds\<close> is
  the test on the coordinates.
\<close>

fun ravel :: "nat list \<Rightarrow> nat list \<Rightarrow> nat" where
  "ravel (c # cs) (d # ds) = c * prod_list ds + ravel cs ds"
| "ravel _ _ = 0"

fun unravel :: "nat \<Rightarrow> nat list \<Rightarrow> nat list" where
  "unravel i [] = []"
| "unravel i (d # ds) = (i div prod_list ds) # unravel (i mod prod_list ds) ds"

definition in_bounds :: "nat list \<Rightarrow> nat list \<Rightarrow> bool" where
  "in_bounds cs shp = (length cs = length shp \<and> list_all2 (<) cs shp)"

definition unravel_index1 :: "nat \<Rightarrow> nat list \<Rightarrow> py_error + nat list" where
  "unravel_index1 i shp = (if i < prod_list shp then Inr (unravel i shp) else Inl ValueError)"

section \<open>The default peak finder\<close>

text \<open>
  \<^verbatim>\<open>find_peaks_simple\<close> delegates a one-dimensional array to
  \<^verbatim>\<open>scipy.signal.find_peaks\<close>, which with no condition given returns the local maxima
  found by its scan \<^verbatim>\<open>_local_maxima_1d\<close>:
  \<^verbatim>\<open>
  i = 1; i_max = x.shape[0] - 1
  while i < i_max:
      if x[i - 1] < x[i]:
          i_ahead = i + 1
          while i_ahead < i_max and x[i_ahead] == x[i]:
              i_ahead += 1
          if x[i_ahead] < x[i]:
              left = i; right = i_ahead - 1
              midpoints.append((left + right) // 2)
              i = i_ahead
      i += 1
  \<close>
  A run of equal samples that is higher than the samples on both of its sides is one
  peak, reported at the middle of the run (rounded down).
\<close>

function look_ahead :: "real list \<Rightarrow> nat \<Rightarrow> nat \<Rightarrow> nat" where
  "look_ahead x i i_ahead =
     (if i_ahead < length x - 1 \<and> x ! i_ahead = x ! i
      then look_ahead x i (Suc i_ahead) else i_ahead)"
  by pat_completeness auto
termination
  by (relation "measure (\<lambda>(x, i, i_ahead). length x - i_ahead)") auto

lemma look_ahead_ge: "i_ahead \<le> look_ahead x i i_ahead"
proof (induction x i i_ahead rule: look_ahead.induct)
  case (1 x i i_ahead)
  show ?case
  proof (cases "i_ahead < length x - 1 \<and> x ! i_ahead = x ! i")
    case True
    then have "Suc i_ahead \<le> look_ahead x i (Suc i_ahead)"
      using "1.IH" by simp
    moreover have "look_ahead x i i_ahead = look_ahead x i (Suc i_ahead)"
      using True by simp
    ultimately show ?thesis by simp
  next
    case False
    then show ?thesis by simp
  qed
qed

function local_maxima_from :: "real list \<Rightarrow> nat \<Rightarrow> nat list" where
  "local_maxima_from x i =
     (if i < length x - 1 then
        (if x ! (i - 1) < x ! i then
           (let i_ahead = look_ahead x i (i + 1) in
            if x ! i_ahead < x ! i
            then ((i + (i_ahead - 1)) div 2) # local_maxima_from x (i_ahead + 1)
            else local_maxima_from x (i + 1))
         else local_maxima_from x (i + 1))
      else [])"
  by pat_completeness auto
termination
proof (relation "measure (\<lambda>(x, i). length x - i)")
  show "wf (measure (\<lambda>(x, i). length x - i))" by simp
next
  fix x :: "real list" and i i_ahead :: nat
  assume a: "i < length x - 1" and b: "i_ahead = look_ahead x i (i + 1)"
  have "i + 1 \<le> i_ahead" using b look_ahead_ge [of "i + 1" x i] by simp
  then show "((x, i_ahead + 1), (x, i)) \<in> measure (\<lambda>(x, i). length x - i)"
    using a by simp
qed auto

definition local_maxima_1d :: "real list \<Rightarrow> nat list" where
  "local_maxima_1d x = local_maxima_from x 1"

text \<open>
  Arrays of higher rank go through \<^verbatim>\<open>scipy.ndimage.maximum_filter(x, 3)\<close>: the maximum
  over the 3-wide window around each point, the array extended at its border by
  repeating the edge sample (the default mode \<^verbatim>\<open>reflect\<close> does so for a window that
  reaches one sample over the edge). \<^verbatim>\<open>np.where(x == y)\<close> then lists, in C order, the
  points that equal the maximum of their window, one coordinate array per axis.
\<close>

fun window3 :: "nat list \<Rightarrow> nat list \<Rightarrow> nat list list" where
  "window3 (c # cs) (d # ds) =
     concat (map (\<lambda>c'. map (\<lambda>r. c' # r) (window3 cs ds)) [c - 1, c, min (c + 1) (d - 1)])"
| "window3 _ _ = [[]]"

definition maximum_filter3 :: "ndarray \<Rightarrow> real list" where
  "maximum_filter3 x =
     map (\<lambda>i. fold max
                 (map (\<lambda>p. nd_data x ! ravel p (nd_shape x)) (window3 (unravel i (nd_shape x)) (nd_shape x)))
                 (nd_data x ! i))
       [0..<length (nd_data x)]"

definition where_equal :: "ndarray \<Rightarrow> real list \<Rightarrow> nat list list" where
  "where_equal x y =
     (let hits = filter (\<lambda>i. nd_data x ! i = y ! i) [0..<length (nd_data x)]
      in map (\<lambda>axis. map (\<lambda>i. unravel i (nd_shape x) ! axis) hits) [0..<ndim x])"

text \<open>
  The result is the tuple of coordinate arrays, one per axis. A peak finder is a
  capability of the estimator and may raise, so its result is a sum. The default finder
  is written for rank at least one; a rank-0 array, which has no first axis, is
  modelled as an error.
\<close>

definition find_peaks_simple :: "ndarray \<Rightarrow> py_error + nat list list" where
  "find_peaks_simple x =
     (if ndim x = 1 then Inr [local_maxima_1d (nd_data x)]
      else if ndim x = 0 then Inl ValueError
      else Inr (where_equal x (maximum_filter3 x)))"

section \<open>The noise subspace\<close>

text \<open>
  A complex matrix is the list of its rows. \<^verbatim>\<open>np.linalg.eigh\<close> is numpy's: it is a
  parameter of the model, returning the eigenvalues and the matrix whose columns are the
  eigenvectors, or raising. \<^verbatim>\<open>E[:, :-k]\<close> is the slice \<^verbatim>\<open>[:-k]\<close> of every row.
\<close>

type_synonym cmatrix = "complex list list"

definition get_noise_subspace ::
  "(cmatrix \<Rightarrow> py_error + real list \<times> cmatrix) \<Rightarrow> cmatrix \<Rightarrow> int \<Rightarrow> py_error + cmatrix" where
  "get_noise_subspace eigh R k =
     (case eigh R of
        Inl e \<Rightarrow> Inl e
      | Inr (w, E) \<Rightarrow> Inr (map (\<lambda>row. slice_to row (- k)) E))"

text \<open>The vocabulary of the contract: square and Hermitian matrices, columns, products.\<close>

definition square :: "nat \<Rightarrow> cmatrix \<Rightarrow> bool" where
  "square n M = (length M = n \<and> list_all (\<lambda>row. length row = n) M)"

definition hermitian :: "cmatrix \<Rightarrow> bool" where
  "hermitian R =
     list_all (\<lambda>i. list_all (\<lambda>j. R ! i ! j = cnj (R ! j ! i)) [0..<length R]) [0..<length R]"

definition column :: "nat \<Rightarrow> cmatrix \<Rightarrow> complex list" where
  "column j M = map (\<lambda>row. row ! j) M"

definition mat_vec :: "cmatrix \<Rightarrow> complex list \<Rightarrow> complex list" where
  "mat_vec R v = map (\<lambda>row. sum_list (map2 (*) row v)) R"

definition eigenpair :: "cmatrix \<Rightarrow> real \<Rightarrow> complex list \<Rightarrow> bool" where
  "eigenpair R ev v =
     (length v = length R \<and> list_ex (\<lambda>c. c \<noteq> 0) v \<and>
      mat_vec R v = map (\<lambda>c. complex_of_real ev * c) v)"

text \<open>
  What \<^verbatim>\<open>eigh\<close> promises for the matrix it is given: eigenvalues in ascending order
  and, column by column, an eigenvector for each.
\<close>

definition eigh_result :: "cmatrix \<Rightarrow> real list \<Rightarrow> cmatrix \<Rightarrow> bool" where
  "eigh_result R w E =
     (length w = length R \<and> square (length R) E \<and> sorted w \<and>
      list_all (\<lambda>j. eigenpair R (w ! j) (column j E)) [0..<length R])"

text \<open>
  An eigen-solver to run the extractor on: it decomposes real diagonal matrices whose
  diagonal is ascending (eigenvalues the diagonal, eigenvectors the unit vectors) and
  raises on every other input.
\<close>

definition identity_matrix :: "nat \<Rightarrow> cmatrix" where
  "identity_matrix n = map (\<lambda>i. map (\<lambda>j. if i = j then 1 else 0) [0..<n]) [0..<n]"

definition diagonal_eigh :: "cmatrix \<Rightarrow> py_error + real list \<times> cmatrix" where
  "diagonal_eigh R =
     (let n = length R; d = map (\<lambda>i. Re (R ! i ! i)) [0..<n]
      in if square n R \<and> sorted d \<and>
            list_all (\<lambda>i. list_all (\<lambda>j. R ! i ! j = (if i = j then complex_of_real (d ! i) else 0))
                               [0..<n]) [0..<n]
         then Inr (d, identity_matrix n)
         else Inl LinAlgError)"

section \<open>The estimator\<close>

subsection \<open>Collaborators, state and events\<close>

text \<open>
  The search grid, the array design and the source placement are collaborators of the
  estimator. A grid is a value of any type \<open>'g\<close> together with its operations; a source
  placement is the list of its locations, of any type \<open>'loc\<close>; a steering matrix is a
  value of any type \<open>'m\<close>, since the estimator only hands it to the spectrum function.
  Every collaborator may raise.
\<close>

record ('g, 'loc) grid_ops =
  source_placement :: "'g \<Rightarrow> 'loc list"
  shape :: "'g \<Rightarrow> nat list"
  create_refined_grids_at :: "'g \<Rightarrow> nat list list \<Rightarrow> int \<Rightarrow> py_error + 'g list"
  create_refined_grid_at :: "'g \<Rightarrow> nat list \<Rightarrow> int \<Rightarrow> py_error + 'g"

text \<open>The fields \<^verbatim>\<open>__init__\<close> sets and never changes again.\<close>

record ('g, 'loc, 'm) estimator =
  design :: "'loc list \<Rightarrow> real \<Rightarrow> string \<Rightarrow> py_error + 'm"
  wavelength :: real
  grid :: "('g, 'loc) grid_ops"
  search_grid :: 'g
  peak_finder :: "ndarray \<Rightarrow> py_error + nat list list"
  enable_caching :: bool

text \<open>
  What a run leaves behind besides its result: the calls it made to the design and the
  grid, and its writes to the estimates' locations and to the list of sub-grids.
\<close>

datatype 'loc event =
    SteeringCall "'loc list" real string
  | CreateGridsCall "nat list list" int
  | CreateGridCall nat "nat list" int
  | LocationWrite nat 'loc

text \<open>The mutable part: the cache slot \<^verbatim>\<open>self._A\<close>, and the events so far.\<close>

record ('loc, 'm) pstate =
  cached_A :: "'m option"
  trace :: "'loc event list"

text \<open>
  A method is a function from the state to a result or an exception, and the state it
  leaves: an exception keeps the state reached when it was raised.
\<close>

type_synonym ('s, 'a) prog = "'s \<Rightarrow> (py_error + 'a) \<times> 's"

definition returns :: "'a \<Rightarrow> ('s, 'a) prog" where
  "returns x = (\<lambda>s. (Inr x, s))"

definition attempt :: "py_error + 'a \<Rightarrow> ('s, 'a) prog" where
  "attempt r = (\<lambda>s. (r, s))"

definition and_then :: "('s, 'a) prog \<Rightarrow> ('a \<Rightarrow> ('s, 'b) prog) \<Rightarrow> ('s, 'b) prog" where
  "and_then m f = (\<lambda>s. case m s of (Inl e, s') \<Rightarrow> (Inl e, s') | (Inr x, s') \<Rightarrow> f x s')"

definition emit :: "'loc event \<Rightarrow> (('loc, 'm) pstate, unit) prog" where
  "emit ev = (\<lambda>s. (Inr (), s\<lparr>trace := trace s @ [ev]\<rparr>))"

fun for_each :: "nat list \<Rightarrow> (nat \<Rightarrow> 'a \<Rightarrow> ('s, 'a) prog) \<Rightarrow> 'a \<Rightarrow> ('s, 'a) prog" where
  "for_each [] body acc = returns acc"
| "for_each (i # rest) body acc = and_then (body i acc) (for_each rest body)"

subsection \<open>Indexing\<close>

text \<open>
  Reading and writing one element, and numpy's indexing of a one-dimensional array by
  an array of positions; each raises IndexError outside the array.
\<close>

definition item :: "'a list \<Rightarrow> nat \<Rightarrow> py_error + 'a" where
  "item xs i = (if i < length xs then Inr (xs ! i) else Inl IndexError)"

definition set_item :: "'a list \<Rightarrow> nat \<Rightarrow> 'a \<Rightarrow> py_error + 'a list" where
  "set_item xs i v = (if i < length xs then Inr (xs[i := v]) else Inl IndexError)"

definition take_items :: "'a list \<Rightarrow> nat list \<Rightarrow> py_error + 'a list" where
  "take_items xs idx =
     (if list_all (\<lambda>i. i < length xs) idx then Inr (map (\<lambda>i. xs ! i) idx) else Inl IndexError)"

text \<open>
  A tuple of coordinate arrays names the points whose \<open>j\<close>-th coordinates stand at
  position \<open>j\<close> of each array.
\<close>

definition points_of :: "nat list list \<Rightarrow> nat list list" where
  "points_of coords =
     (case coords of [] \<Rightarrow> [] | a # _ \<Rightarrow> map (\<lambda>j. map (\<lambda>axis. axis ! j) coords) [0..<length a])"

definition same_lengths :: "nat list list \<Rightarrow> bool" where
  "same_lengths coords = (case coords of [] \<Rightarrow> True | a # rest \<Rightarrow> list_all (\<lambda>b. length b = length a) rest)"

text \<open>
  \<^verbatim>\<open>sp[peak_indices]\<close>: the spectrum at each point. The peak finder's contract is one
  coordinate array per axis, all of one length; for a tuple that breaks it (where numpy
  would broadcast, or return sub-arrays that \<^verbatim>\<open>ravel_multi_index\<close> then refuses) the
  model raises here.
\<close>

definition values_at :: "ndarray \<Rightarrow> nat list list \<Rightarrow> py_error + real list" where
  "values_at sp coords =
     (if length coords = ndim sp \<and> same_lengths coords \<and>
         list_all (\<lambda>p. in_bounds p (nd_shape sp)) (points_of coords)
      then Inr (map (\<lambda>p. nd_data sp ! ravel p (nd_shape sp)) (points_of coords))
      else Inl IndexError)"

definition take_items_each :: "nat list list \<Rightarrow> nat list \<Rightarrow> py_error + nat list list" where
  "take_items_each coords idx =
     (if list_all (\<lambda>axis. list_all (\<lambda>i. i < length axis) idx) coords
      then Inr (map (\<lambda>axis. map (\<lambda>i. axis ! i) idx) coords)
      else Inl IndexError)"

definition ravel_multi_index :: "nat list list \<Rightarrow> nat list \<Rightarrow> py_error + nat list" where
  "ravel_multi_index coords shp =
     (if length coords = length shp \<and> same_lengths coords \<and>
         list_all (\<lambda>p. in_bounds p shp) (points_of coords)
      then Inr (map (\<lambda>p. ravel p shp) (points_of coords))
      else Inl ValueError)"

definition unravel_index :: "nat list \<Rightarrow> nat list \<Rightarrow> py_error + nat list list" where
  "unravel_index idx shp =
     (if list_all (\<lambda>i. i < prod_list shp) idx
      then Inr (map (\<lambda>axis. map (\<lambda>i. unravel i shp ! axis) idx) [0..<length shp])
      else Inl ValueError)"

text \<open>\<^verbatim>\<open>len(peak_indices[0])\<close>: the tuple must have a first array.\<close>

definition first_length :: "nat list list \<Rightarrow> py_error + nat" where
  "first_length coords = (case coords of [] \<Rightarrow> Inl IndexError | a # _ \<Rightarrow> Inr (length a))"

text \<open>
  \<^verbatim>\<open>sp.argmax()\<close>: the position of the first largest value; ValueError on an empty
  array.
\<close>

fun argmax_scan :: "real list \<Rightarrow> nat \<Rightarrow> nat \<Rightarrow> real \<Rightarrow> nat" where
  "argmax_scan [] i best v = best"
| "argmax_scan (x # xs) i best v =
     (if v < x then argmax_scan xs (Suc i) i x else argmax_scan xs (Suc i) best v)"

definition argmax :: "real list \<Rightarrow> py_error + nat" where
  "argmax xs = (case xs of [] \<Rightarrow> Inl ValueError | x # rest \<Rightarrow> Inr (argmax_scan rest 1 0 x))"

text \<open>
  \<^verbatim>\<open>np.argsort\<close> with numpy's default sort is not stable: which of two equal values
  comes first is the library's choice. It is a parameter of the model, and an argsort
  is any function that returns a permutation of the positions along which the values
  ascend. \<open>stable_argsort\<close> is one of them.
\<close>

definition argsort_ok :: "(real list \<Rightarrow> nat list) \<Rightarrow> bool" where
  "argsort_ok np_argsort =
     (\<forall>v. distinct (np_argsort v) \<and> set (np_argsort v) = {0..<length v} \<and>
          sorted (map (\<lambda>i. v ! i) (np_argsort v)))"

definition stable_argsort :: "real list \<Rightarrow> nat list" where
  "stable_argsort v = sort_key (\<lambda>i. v ! i) [0..<length v]"

subsection \<open>The steering matrix and its cache\<close>

text \<open>
  \<^verbatim>\<open>self._design.steering_matrix(placement, self._wavelength, perturbations='known')\<close>.
\<close>

definition steering_matrix ::
  "('g, 'loc, 'm) estimator \<Rightarrow> 'loc list \<Rightarrow> (('loc, 'm) pstate, 'm) prog" where
  "steering_matrix self placement =
     and_then (emit (SteeringCall placement (wavelength self) ''known''))
       (\<lambda>_. attempt (design self placement (wavelength self) ''known''))"

text \<open>\<^verbatim>\<open>_get_steering_matrix\<close> (a constant's name cannot start with an underscore).\<close>

definition get_steering_matrix ::
  "('g, 'loc, 'm) estimator \<Rightarrow> (('loc, 'm) pstate, 'm) prog" where
  "get_steering_matrix self =
     (\<lambda>s. case cached_A s of
        Some A \<Rightarrow> returns A s
      | None \<Rightarrow>
          and_then (steering_matrix self (source_placement (grid self) (search_grid self)))
            (\<lambda>A. if enable_caching self
                  then (\<lambda>s'. (Inr A, s'\<lparr>cached_A := Some A\<rparr>))
                  else returns A) s)"

subsection \<open>Refinement\<close>

text \<open>
  One pass of the inner loop's body, for estimate \<open>i\<close> in round \<open>r\<close>. The loop variables
  that change are the locations and the list of sub-grids.
\<close>

definition refine_step ::
  "('g, 'loc, 'm) estimator \<Rightarrow> ('m \<Rightarrow> py_error + real list) \<Rightarrow> int \<Rightarrow> int \<Rightarrow> nat \<Rightarrow> nat \<Rightarrow>
   'loc list \<times> 'g list \<Rightarrow> (('loc, 'm) pstate, 'loc list \<times> 'g list) prog" where
  "refine_step self f_sp density n_iters r i = (\<lambda>(locations, subgrids).
     and_then (attempt (item subgrids i)) (\<lambda>g.
     and_then (steering_matrix self (source_placement (grid self) g)) (\<lambda>A.
     and_then (attempt (f_sp A)) (\<lambda>sp.
     and_then (attempt (argmax sp)) (\<lambda>i_max.
     and_then (attempt (item (source_placement (grid self) g) i_max)) (\<lambda>v.
     and_then (attempt (set_item locations i v)) (\<lambda>locations'.
     and_then (emit (LocationWrite i v)) (\<lambda>_.
     if int r = n_iters - 1 then returns (locations', subgrids)
     else
       and_then (attempt (unravel_index1 i_max (shape (grid self) g))) (\<lambda>peak_coord.
       and_then (emit (CreateGridCall i peak_coord density)) (\<lambda>_.
       and_then (attempt (create_refined_grid_at (grid self) g peak_coord density)) (\<lambda>g'.
       returns (locations', subgrids[i := g']))))))))))))"

text \<open>\<^verbatim>\<open>_refine_estimates(f_sp, est0, peak_indices, density, n_iters)\<close>.\<close>

definition refine_estimates ::
  "('g, 'loc, 'm) estimator \<Rightarrow> ('m \<Rightarrow> py_error + real list) \<Rightarrow> 'loc list \<Rightarrow> nat list list \<Rightarrow>
   int \<Rightarrow> int \<Rightarrow> (('loc, 'm) pstate, 'loc list) prog" where
  "refine_estimates self f_sp est0 peak_indices density n_iters =
     and_then (emit (CreateGridsCall peak_indices density)) (\<lambda>_.
     and_then (attempt (create_refined_grids_at (grid self) (search_grid self) peak_indices density))
       (\<lambda>subgrids.
     and_then (for_each [0..<nat n_iters]
                 (\<lambda>r. for_each [0..<length subgrids] (refine_step self f_sp density n_iters r))
                 (est0, subgrids))
       (\<lambda>(locations, _). returns locations)))"

text \<open>The defaults of \<^verbatim>\<open>_refine_estimates\<close>: \<^verbatim>\<open>density=10, n_iters=3\<close>.\<close>

definition default_density :: int where
  "default_density = 10"

definition default_n_iters :: int where
  "default_n_iters = 3"

subsection \<open>Estimation\<close>

text \<open>
  The tuples \<^verbatim>\<open>_estimate\<close> returns: \<^verbatim>\<open>(resolved, estimates)\<close>, and
  \<^verbatim>\<open>(resolved, estimates, spectrum)\<close> when the spectrum was asked for. \<^verbatim>\<open>None\<close> is
  \<open>None\<close>.
\<close>

datatype 'loc outcome =
    Pair_result bool "'loc list option"
  | Triple_result bool "'loc list option" "ndarray option"

fun resolved :: "'loc outcome \<Rightarrow> bool" where
  "resolved (Pair_result b _) = b"
| "resolved (Triple_result b _ _) = b"

fun estimates :: "'loc outcome \<Rightarrow> 'loc list option" where
  "estimates (Pair_result _ e) = e"
| "estimates (Triple_result _ e _) = e"

text \<open>
  \<^verbatim>\<open>_estimate\<close>, line by line. The call of \<^verbatim>\<open>_refine_estimates\<close> passes \<^verbatim>\<open>f_sp\<close>, the
  estimates and the coordinates only, so the refinement runs with its defaults.
\<close>

definition estimate ::
  "(real list \<Rightarrow> nat list) \<Rightarrow> ('g, 'loc, 'm) estimator \<Rightarrow> ('m \<Rightarrow> py_error + real list) \<Rightarrow> int \<Rightarrow>
   bool \<Rightarrow> bool \<Rightarrow> int \<Rightarrow> int \<Rightarrow> (('loc, 'm) pstate, 'loc outcome) prog" where
  "estimate np_argsort self f_sp k return_spectrum refine refinement_density refinement_iters =
     and_then (get_steering_matrix self) (\<lambda>A.
     and_then (attempt (f_sp A)) (\<lambda>sp_flat.
     and_then (attempt (reshape sp_flat (shape (grid self) (search_grid self)))) (\<lambda>sp.
     and_then (attempt (peak_finder self sp)) (\<lambda>peak_indices.
     and_then (attempt (first_length peak_indices)) (\<lambda>n_peaks.
     if int n_peaks < k then
       returns (if return_spectrum then Triple_result False None None
                else Pair_result False None)
     else
       and_then (attempt (values_at sp peak_indices)) (\<lambda>peak_values.
       and_then (attempt (take_items_each peak_indices (slice_from (np_argsort peak_values) (- k))))
         (\<lambda>top_peaks.
       and_then (attempt (ravel_multi_index top_peaks (shape (grid self) (search_grid self))))
         (\<lambda>flattened.
       and_then (attempt (take_items (source_placement (grid self) (search_grid self))
                            (sort flattened))) (\<lambda>est.
       and_then (if refine then
                   and_then (attempt (unravel_index (sort flattened)
                                        (shape (grid self) (search_grid self))))
                     (\<lambda>coords. refine_estimates self f_sp est coords default_density default_n_iters)
                 else returns est) (\<lambda>est'.
       returns (if return_spectrum then Triple_result True (Some est') (Some sp)
                else Pair_result True (Some est'))))))))))))"

section \<open>A small estimator to run the model on\<close>

text \<open>
  A uniform grid on the real line, given by its first point, its spacing and its number
  of points. Refining it at a point with density \<open>d\<close> gives the grid of \<open>2 d + 1\<close> points
  from the point's left neighbour to its right neighbour. The design hands back the
  placement itself as its steering matrix, and the spectrum has two peaks, of height 3
  at direction 1 and of height 5 at direction 3.
\<close>

datatype line_grid = Line_grid real real nat

fun line_points :: "line_grid \<Rightarrow> real list" where
  "line_points (Line_grid a h n) = map (\<lambda>j. a + real j * h) [0..<n]"

fun line_shape :: "line_grid \<Rightarrow> nat list" where
  "line_shape (Line_grid a h n) = [n]"

fun line_refined :: "line_grid \<Rightarrow> nat \<Rightarrow> int \<Rightarrow> line_grid" where
  "line_refined (Line_grid a h n) c d =
     Line_grid (a + real c * h - h) (h / real_of_int d) (2 * nat d + 1)"

definition line_refined_at :: "line_grid \<Rightarrow> nat list \<Rightarrow> int \<Rightarrow> py_error + line_grid" where
  "line_refined_at g coord d =
     (case coord of
        [c] \<Rightarrow> if 1 \<le> d \<and> in_bounds [c] (line_shape g)
               then Inr (line_refined g c d) else Inl ValueError
      | _ \<Rightarrow> Inl ValueError)"

definition line_refined_grids_at :: "line_grid \<Rightarrow> nat list list \<Rightarrow> int \<Rightarrow> py_error + line_grid list" where
  "line_refined_grids_at g coords d =
     (case coords of
        [cs] \<Rightarrow> if 1 \<le> d \<and> list_all (\<lambda>c. in_bounds [c] (line_shape g)) cs
                then Inr (map (\<lambda>c. line_refined g c d) cs) else Inl ValueError
      | _ \<Rightarrow> Inl ValueError)"

definition line_ops :: "(line_grid, real) grid_ops" where
  "line_ops = \<lparr>source_placement = line_points, shape = line_shape,
               create_refined_grids_at = line_refined_grids_at,
               create_refined_grid_at = line_refined_at\<rparr>"

definition echo_design :: "real list \<Rightarrow> real \<Rightarrow> string \<Rightarrow> py_error + real list" where
  "echo_design placement wl perturbations = Inr placement"

definition two_peaks :: "real list \<Rightarrow> py_error + real list" where
  "two_peaks A = Inr (map (\<lambda>t. max 0 (max (3 - 3 * \<bar>t - 1\<bar>) (5 - 5 * \<bar>t - 3\<bar>))) A)"

definition line_estimator :: "bool \<Rightarrow> (line_grid, real, real list) estimator" where
  "line_estimator caching =
     \<lparr>design = echo_design, wavelength = 1, grid = line_ops, search_grid = Line_grid 0 1 5,
      peak_finder = find_peaks_simple, enable_caching = caching\<rparr>"

definition fresh :: "(real, real list) pstate" where
  "fresh = \<lparr>cached_A = None, trace = []\<rparr>"

text \<open>
  A grid of nine points, and a spectrum with four peaks on it: of height 3 at direction 1,
  of height 5 at direction 3, of height 1 at direction 5 and of height 4 at direction 7.
  The three highest peaks stand on the grid in an order that is neither that of
  ascending nor that of descending height.
\<close>

definition four_peaks :: "real list \<Rightarrow> py_error + real list" where
  "four_peaks A =
     Inr (map (\<lambda>t. max 0 (max (3 - 3 * \<bar>t - 1\<bar>)
                        (max (5 - 5 * \<bar>t - 3\<bar>) (max (1 - \<bar>t - 5\<bar>) (4 - 4 * \<bar>t - 7\<bar>))))) A)"

definition wide_estimator :: "(line_grid, real, real list) estimator" where
  "wide_estimator =
     \<lparr>design = echo_design, wavelength = 1, grid = line_ops, search_grid = Line_grid 0 1 9,
      peak_finder = find_peaks_simple, enable_caching = True\<rparr>"

section \<open>Observing a run\<close>

text \<open>
  Any number of calls of \<^verbatim>\<open>_get_steering_matrix\<close> on one estimator, one after the
  other: the results of the calls, and the state after the last.
\<close>

fun get_repeatedly ::
  "nat \<Rightarrow> ('g, 'loc, 'm) estimator \<Rightarrow> ('loc, 'm) pstate \<Rightarrow> (py_error + 'm) list \<times> ('loc, 'm) pstate" where
  "get_repeatedly 0 self s = ([], s)"
| "get_repeatedly (Suc n) self s =
     (case get_steering_matrix self s of
        (r, s1) \<Rightarrow> (case get_repeatedly n self s1 of (rs, s2) \<Rightarrow> (r # rs, s2)))"

text \<open>The events of a trace that concern estimate \<open>i\<close>, and what they wrote and built.\<close>

fun slot_events :: "nat \<Rightarrow> 'loc event list \<Rightarrow> 'loc event list" where
  "slot_events i [] = []"
| "slot_events i (LocationWrite j v # evs) =
     (if j = i then LocationWrite j v # slot_events i evs else slot_events i evs)"
| "slot_events i (CreateGridCall j c d # evs) =
     (if j = i then CreateGridCall j c d # slot_events i evs else slot_events i evs)"
| "slot_events i (_ # evs) = slot_events i evs"

fun writes_of :: "'loc event list \<Rightarrow> 'loc list" where
  "writes_of [] = []"
| "writes_of (LocationWrite j v # evs) = v # writes_of evs"
| "writes_of (_ # evs) = writes_of evs"

fun grid_calls_of :: "'loc event list \<Rightarrow> (nat list \<times> int) list" where
  "grid_calls_of [] = []"
| "grid_calls_of (CreateGridCall j c d # evs) = (c, d) # grid_calls_of evs"
| "grid_calls_of (_ # evs) = grid_calls_of evs"

text \<open>
  The refinement of one estimate as the specification describes it, on its own. One
  round on a sub-grid: build the steering matrix of the sub-grid's placement, evaluate
  the spectrum function, take the position of the first maximum, and read the
  sub-grid's point there.
\<close>

definition locate ::
  "('g, 'loc, 'm) estimator \<Rightarrow> ('m \<Rightarrow> py_error + real list) \<Rightarrow> 'g \<Rightarrow> py_error + nat \<times> 'loc" where
  "locate self f_sp g =
     (case design self (source_placement (grid self) g) (wavelength self) ''known'' of
        Inl e \<Rightarrow> Inl e
      | Inr A \<Rightarrow>
          (case f_sp A of
             Inl e \<Rightarrow> Inl e
           | Inr sp \<Rightarrow>
               (case argmax sp of
                  Inl e \<Rightarrow> Inl e
                | Inr i_max \<Rightarrow>
                    (case item (source_placement (grid self) g) i_max of
                       Inl e \<Rightarrow> Inl e
                     | Inr v \<Rightarrow> Inr (i_max, v)))))"

text \<open>
  \<open>rounds\<close> rounds for estimate \<open>i\<close>, starting on the sub-grid \<open>g\<close>: each round overwrites
  the location with the point found, and every round but the last builds a finer
  sub-grid around that point for the next round. The result is the list of these
  writes and constructions, in order.
\<close>

fun zoom ::
  "('g, 'loc, 'm) estimator \<Rightarrow> ('m \<Rightarrow> py_error + real list) \<Rightarrow> int \<Rightarrow> nat \<Rightarrow> nat \<Rightarrow> 'g \<Rightarrow>
   py_error + 'loc event list" where
  "zoom self f_sp density i 0 g = Inr []"
| "zoom self f_sp density i (Suc rounds) g =
     (case locate self f_sp g of
        Inl e \<Rightarrow> Inl e
      | Inr (i_max, v) \<Rightarrow>
          if rounds = 0 then Inr [LocationWrite i v]
          else
            (case unravel_index1 i_max (shape (grid self) g) of
               Inl e \<Rightarrow> Inl e
             | Inr peak_coord \<Rightarrow>
                 (case create_refined_grid_at (grid self) g peak_coord density of
                    Inl e \<Rightarrow> Inl e
                  | Inr g' \<Rightarrow>
                      (case zoom self f_sp density i rounds g' of
                         Inl e \<Rightarrow> Inl e
                       | Inr evs \<Rightarrow> Inr (LocationWrite i v # CreateGridCall i peak_coord density # evs)))))"

text \<open>
  What one round does for estimate \<open>i\<close> on its sub-grid \<open>g\<close>: the location \<open>v\<close> it writes,
  the sub-grid \<open>g'\<close> it leaves for the next round, and its events.
\<close>

definition round_effect ::
  "('g, 'loc, 'm) estimator \<Rightarrow> ('m \<Rightarrow> py_error + real list) \<Rightarrow> int \<Rightarrow> bool \<Rightarrow> nat \<Rightarrow>
   'g \<Rightarrow> 'loc \<Rightarrow> 'g \<Rightarrow> 'loc event list \<Rightarrow> bool" where
  "round_effect self f_sp density final i g v g' evs =
     (\<exists>i_max. locate self f_sp g = Inr (i_max, v) \<and>
        (if final then g' = g \<and> evs = [LocationWrite i v]
         else \<exists>c. unravel_index1 i_max (shape (grid self) g) = Inr c \<and>
                create_refined_grid_at (grid self) g c density = Inr g' \<and>
                evs = [LocationWrite i v, CreateGridCall i c density]))"

text \<open>A spectrum whose peak, at 5/4, lies between the points of the grid.\<close>

definition off_grid_peak :: "real list \<Rightarrow> py_error + real list" where
  "off_grid_peak A = Inr (map (\<lambda>t. 3 - 3 * \<bar>t - 5 / 4\<bar>) A)"

section \<open>Properties of the noise-subspace extractor\<close>

lemma slice_to_zero: "slice_to xs 0 = []"
  by (simp add: slice_to_def slice_bound_def)

lemma slice_to_all_gone: "int (length xs) \<le> k \<Longrightarrow> slice_to xs (- k) = []"
  by (auto simp: slice_to_def slice_bound_def max_def)

lemma slice_to_keep:
  "0 < k \<Longrightarrow> k < int (length xs) \<Longrightarrow> slice_to xs (- k) = take (length xs - nat k) xs"
  by (auto simp: slice_to_def slice_bound_def max_def nat_diff_distrib')

lemma map_empty_rows: "map (\<lambda>row. []) E = replicate (length E) []"
  by (induction E) simp_all

text \<open>
  Claim C10. Called with \<open>k = 0\<close> on an \<open>n \<times> n\<close> matrix the eigen-solver decomposes, the
  extractor returns a matrix with \<open>n\<close> rows and no column: the slice \<^verbatim>\<open>[:-0]\<close> is
  \<^verbatim>\<open>[:0]\<close>, the empty one. It does not return the full basis \<open>E\<close> of \<open>n\<close> columns.
\<close>

theorem noise_subspace_no_sources:
  assumes "eigh R = Inr (w, E)" and "square n E" and "0 < n"
  shows "get_noise_subspace eigh R 0 = Inr (replicate n []) \<and> get_noise_subspace eigh R 0 \<noteq> Inr E"
proof -
  have len: "length E = n" and rows: "list_all (\<lambda>row. length row = n) E"
    using assms(2) by (simp_all add: square_def)
  have res: "get_noise_subspace eigh R 0 = Inr (replicate n [])"
    using assms(1) len by (simp add: get_noise_subspace_def slice_to_zero map_empty_rows)
  from len assms(3) obtain row rest where E: "E = row # rest" by (cases E) auto
  with rows have "row \<noteq> []" using assms(3) by auto
  with E len have "replicate n [] \<noteq> E" by (cases n) auto
  with res show ?thesis by simp
qed

theorem noise_subspace_no_sources_witness:
  "diagonal_eigh [[1, 0, 0], [0, 2, 0], [0, 0, 3]] = Inr ([1, 2, 3], identity_matrix 3) \<and>
   square 3 (identity_matrix 3) \<and>
   get_noise_subspace diagonal_eigh [[1, 0, 0], [0, 2, 0], [0, 0, 3]] 0 = Inr [[], [], []] \<and>
   get_noise_subspace diagonal_eigh [[1, 0, 0], [0, 2, 0], [0, 0, 3]] 0 \<noteq> Inr (identity_matrix 3)"
proof -
  have run: "diagonal_eigh [[1, 0, 0], [0, 2, 0], [0, 0, 3]] = Inr ([1, 2, 3], identity_matrix 3)"
    by code_simp
  have sq: "square 3 (identity_matrix 3)"
    by code_simp
  have pos: "(0::nat) < 3" by simp
  have rows: "replicate 3 [] = [[], [], []::complex list]" by (simp add: numeral_3_eq_3)
  have both: "get_noise_subspace diagonal_eigh [[1, 0, 0], [0, 2, 0], [0, 0, 3]] 0 = Inr [[], [], []] \<and>
     get_noise_subspace diagonal_eigh [[1, 0, 0], [0, 2, 0], [0, 0, 3]] 0 \<noteq> Inr (identity_matrix 3)"
    using noise_subspace_no_sources [of diagonal_eigh "[[1, 0, 0], [0, 2, 0], [0, 0, 3]]"
        "[1, 2, 3]" "identity_matrix 3" 3, OF run sq pos]
    unfolding rows .
  from run sq both show ?thesis by blast
qed

text \<open>
  Claim C4 (as stated: for \<open>k \<ge> n\<close> the extractor fails with an error) does not hold.
  On the 3 by 3 matrix with diagonal 1, 2, 3 and \<open>k = 3\<close> the extractor returns the matrix
  of three empty rows: a slice never raises.
\<close>

theorem noise_subspace_too_many_sources_counterexample:
  "square 3 [[1, 0, 0], [0, 2, 0], [0, 0, 3]] \<and> (3::int) \<ge> int 3 \<and>
   get_noise_subspace diagonal_eigh [[1, 0, 0], [0, 2, 0], [0, 0, 3]] 3 = Inr [[], [], []]"
  by code_simp

text \<open>
  Claim C4, amended. The extractor raises exactly what the eigen-solver raises on \<open>R\<close>.
  When the solver returns an \<open>n \<times> n\<close> eigenvector matrix and \<open>k \<ge> n\<close>, the extractor returns
  the matrix of \<open>n\<close> rows and no column, and no error.
\<close>

theorem noise_subspace_too_many_sources:
  "(eigh R = Inl e \<longrightarrow> get_noise_subspace eigh R k = Inl e) \<and>
   (eigh R = Inr (w, E) \<and> square n E \<and> int n \<le> k \<longrightarrow>
      get_noise_subspace eigh R k = Inr (replicate n []))"
proof (intro conjI impI)
  assume "eigh R = Inl e"
  then show "get_noise_subspace eigh R k = Inl e"
    by (simp add: get_noise_subspace_def)
next
  assume a: "eigh R = Inr (w, E) \<and> square n E \<and> int n \<le> k"
  then have len: "length E = n" and rows: "\<forall>row \<in> set E. length row = n"
    by (simp_all add: square_def list_all_iff)
  have "map (\<lambda>row. slice_to row (- k)) E = map (\<lambda>row. []) E"
  proof (rule map_cong [OF refl])
    fix row assume "row \<in> set E"
    with rows a have "int (length row) \<le> k" by simp
    then show "slice_to row (- k) = []" by (rule slice_to_all_gone)
  qed
  with a len show "get_noise_subspace eigh R k = Inr (replicate n [])"
    by (simp add: get_noise_subspace_def map_empty_rows)
qed

theorem noise_subspace_too_many_sources_witness:
  "diagonal_eigh [[1, 1], [1, 1]] = Inl LinAlgError \<and>
   get_noise_subspace diagonal_eigh [[1, 1], [1, 1]] 2 = Inl LinAlgError \<and>
   diagonal_eigh [[1, 0], [0, 2]] = Inr ([1, 2], identity_matrix 2) \<and>
   square 2 (identity_matrix 2) \<and> int 2 \<le> 5 \<and>
   get_noise_subspace diagonal_eigh [[1, 0], [0, 2]] 5 = Inr [[], []]"
proof -
  have bad: "diagonal_eigh [[1, 1], [1, 1]] = Inl LinAlgError" by code_simp
  have good: "diagonal_eigh [[1, 0], [0, 2]] = Inr ([1, 2], identity_matrix 2)" by code_simp
  have sq: "square 2 (identity_matrix 2)" by code_simp
  have rows: "replicate 2 [] = [[], []::complex list]" by (simp add: numeral_2_eq_2)
  have "get_noise_subspace diagonal_eigh [[1, 1], [1, 1]] 2 = Inl LinAlgError"
    using noise_subspace_too_many_sources [of diagonal_eigh "[[1, 1], [1, 1]]" LinAlgError 2] bad
    by blast
  moreover have "get_noise_subspace diagonal_eigh [[1, 0], [0, 2]] 5 = Inr [[], []]"
    using noise_subspace_too_many_sources [of diagonal_eigh "[[1, 0], [0, 2]]" _ 5 "[1, 2]"
        "identity_matrix 2" 2] good sq rows
    by simp
  ultimately show ?thesis using bad good sq by simp
qed

lemma column_take: "j < m \<Longrightarrow> column j (map (take m) E) = column j E"
  by (simp add: column_def)

text \<open>
  Claim C7. For a Hermitian \<open>n \<times> n\<close> matrix \<open>R\<close> that the eigen-solver decomposes as it
  promises (ascending eigenvalues \<open>w\<close>, the \<open>j\<close>-th column of \<open>E\<close> an eigenvector for the
  \<open>j\<close>-th eigenvalue) and for \<open>0 < k < n\<close>, the extractor returns a matrix of \<open>n\<close> rows and
  \<open>n - k\<close> columns. Its \<open>j\<close>-th column is the \<open>j\<close>-th column of \<open>E\<close>, an eigenvector of \<open>R\<close> for
  the eigenvalue \<open>w ! j\<close>, and that eigenvalue is at most each of the \<open>k\<close> eigenvalues whose
  columns were dropped: the columns kept belong to the \<open>n - k\<close> smallest eigenvalues.
\<close>

theorem noise_subspace_smallest_eigenvalues:
  assumes herm: "hermitian R" and sq: "square n R"
    and run: "eigh R = Inr (w, E)" and ok: "eigh_result R w E"
    and k: "0 < k" "k < int n"
  shows "\<exists>N. get_noise_subspace eigh R k = Inr N \<and> length N = n \<and>
           list_all (\<lambda>row. length row = n - nat k) N \<and>
           (\<forall>j < n - nat k. column j N = column j E \<and> eigenpair R (w ! j) (column j N) \<and>
              (\<forall>j'. n - nat k \<le> j' \<and> j' < n \<longrightarrow> w ! j \<le> w ! j'))"
proof -
  have n: "length R = n" using sq by (simp add: square_def)
  have lw: "length w = n" and sqE: "square n E" and asc: "sorted w"
    and pairs: "\<forall>j \<in> set [0..<n]. eigenpair R (w ! j) (column j E)"
    using ok n by (simp_all add: eigh_result_def list_all_iff)
  have len: "length E = n" and rows: "\<forall>row \<in> set E. length row = n"
    using sqE by (simp_all add: square_def list_all_iff)
  define N where "N = map (take (n - nat k)) E"
  have "map (\<lambda>row. slice_to row (- k)) E = N"
    unfolding N_def
  proof (rule map_cong [OF refl])
    fix row assume "row \<in> set E"
    with rows have "length row = n" by simp
    with k show "slice_to row (- k) = take (n - nat k) row"
      using slice_to_keep [of k row] by simp
  qed
  with run have res: "get_noise_subspace eigh R k = Inr N"
    by (simp add: get_noise_subspace_def)
  have lenN: "length N = n" using len by (simp add: N_def)
  have rowsN: "list_all (\<lambda>row. length row = n - nat k) N"
    using rows by (auto simp: N_def list_all_iff)
  have cols: "\<forall>j < n - nat k. column j N = column j E \<and> eigenpair R (w ! j) (column j N) \<and>
              (\<forall>j'. n - nat k \<le> j' \<and> j' < n \<longrightarrow> w ! j \<le> w ! j')"
  proof (intro allI impI conjI)
    fix j assume j: "j < n - nat k"
    show c: "column j N = column j E" unfolding N_def using j by (rule column_take)
    from j have "j \<in> set [0..<n]" by simp
    with pairs have "eigenpair R (w ! j) (column j E)" by blast
    with c show "eigenpair R (w ! j) (column j N)" by simp
    fix j' assume j': "n - nat k \<le> j' \<and> j' < n"
    with j lw asc show "w ! j \<le> w ! j'" by (intro sorted_nth_mono) simp_all
  qed
  from res lenN rowsN cols show ?thesis by blast
qed

theorem noise_subspace_smallest_eigenvalues_witness:
  "hermitian [[1, 0, 0], [0, 2, 0], [0, 0, 3]] \<and> square 3 [[1, 0, 0], [0, 2, 0], [0, 0, 3]] \<and>
   diagonal_eigh [[1, 0, 0], [0, 2, 0], [0, 0, 3]] = Inr ([1, 2, 3], identity_matrix 3) \<and>
   eigh_result [[1, 0, 0], [0, 2, 0], [0, 0, 3]] [1, 2, 3] (identity_matrix 3) \<and>
   (\<exists>N. get_noise_subspace diagonal_eigh [[1, 0, 0], [0, 2, 0], [0, 0, 3]] 1 = Inr N \<and>
        length N = 3 \<and> list_all (\<lambda>row. length row = 2) N \<and>
        column 0 N = column 0 (identity_matrix 3) \<and>
        eigenpair [[1, 0, 0], [0, 2, 0], [0, 0, 3]] 1 (column 0 N) \<and>
        eigenpair [[1, 0, 0], [0, 2, 0], [0, 0, 3]] 2 (column 1 N))"
proof -
  have herm: "hermitian [[1, 0, 0], [0, 2, 0], [0, 0, 3]]" by code_simp
  have sq: "square 3 [[1, 0, 0], [0, 2, 0], [0, 0, 3]]" by code_simp
  have run: "diagonal_eigh [[1, 0, 0], [0, 2, 0], [0, 0, 3]] = Inr ([1, 2, 3], identity_matrix 3)"
    by code_simp
  have ok: "eigh_result [[1, 0, 0], [0, 2, 0], [0, 0, 3]] [1, 2, 3] (identity_matrix 3)"
    by code_simp
  have k: "(0::int) < 1" "(1::int) < int 3" by simp_all
  from noise_subspace_smallest_eigenvalues [where eigh = diagonal_eigh, OF herm sq run ok k]
  obtain N where N: "get_noise_subspace diagonal_eigh [[1, 0, 0], [0, 2, 0], [0, 0, 3]] 1 = Inr N"
    "length N = 3" "list_all (\<lambda>row. length row = 3 - nat 1) N"
    "\<forall>j < 3 - nat 1. column j N = column j (identity_matrix 3) \<and>
        eigenpair [[1, 0, 0], [0, 2, 0], [0, 0, 3]] ([1, 2, 3] ! j) (column j N) \<and>
        (\<forall>j'. 3 - nat 1 \<le> j' \<and> j' < 3 \<longrightarrow> [1, 2, 3::real] ! j \<le> [1, 2, 3] ! j')"
    by blast
  have j0: "(0::nat) < 3 - nat 1" and j1: "(1::nat) < 3 - nat 1" by simp_all
  from N(4) [rule_format, OF j0]
  have c0: "column 0 N = column 0 (identity_matrix 3)"
    and e0: "eigenpair [[1, 0, 0], [0, 2, 0], [0, 0, 3]] ([1, 2, 3] ! 0) (column 0 N)"
    by blast+
  from N(4) [rule_format, OF j1]
  have e1: "eigenpair [[1, 0, 0], [0, 2, 0], [0, 0, 3]] ([1, 2, 3] ! 1) (column 1 N)"
    by blast
  have v0: "[1, 2, 3::real] ! 0 = 1" and v1: "[1, 2, 3::real] ! 1 = 2" by simp_all
  note c0 e0 [unfolded v0] e1 [unfolded v1]
  moreover have "list_all (\<lambda>row. length row = 2) N" using N(3) by simp
  ultimately show ?thesis using herm sq run ok N(1,2) by blast
qed

section \<open>Properties of the default peak finder\<close>

declare look_ahead.simps [simp del] local_maxima_from.simps [simp del]

lemma look_ahead_unfold_T: "a < length x - 1 \<and> x ! a = x ! i \<Longrightarrow> look_ahead x i a = look_ahead x i (Suc a)"
  by (subst look_ahead.simps) simp

lemma look_ahead_unfold_F: "\<not> (a < length x - 1 \<and> x ! a = x ! i) \<Longrightarrow> look_ahead x i a = a"
  by (subst look_ahead.simps) auto

lemma look_ahead_plateau:
  "a \<le> j \<Longrightarrow> j < look_ahead x i a \<Longrightarrow> x ! j = x ! i"
proof (induction x i a rule: look_ahead.induct)
  case (1 x i a)
  show ?case
  proof (cases "a < length x - 1 \<and> x ! a = x ! i")
    case True
    then have eq: "look_ahead x i a = look_ahead x i (Suc a)" by (rule look_ahead_unfold_T)
    show ?thesis
    proof (cases "j = a")
      case True
      with \<open>a < length x - 1 \<and> x ! a = x ! i\<close> show ?thesis by simp
    next
      case False
      with "1.prems" have "Suc a \<le> j" by simp
      moreover from "1.prems" eq have "j < look_ahead x i (Suc a)" by simp
      ultimately show ?thesis by (rule "1.IH" [OF True])
    qed
  next
    case False
    then have "look_ahead x i a = a" by (rule look_ahead_unfold_F)
    with "1.prems" show ?thesis by simp
  qed
qed

lemma look_ahead_le:
  "a \<le> length x - 1 \<Longrightarrow> look_ahead x i a \<le> length x - 1"
proof (induction x i a rule: look_ahead.induct)
  case (1 x i a)
  show ?case
  proof (cases "a < length x - 1 \<and> x ! a = x ! i")
    case True
    then have "look_ahead x i a = look_ahead x i (Suc a)" by (rule look_ahead_unfold_T)
    moreover have "look_ahead x i (Suc a) \<le> length x - 1"
      using True by (intro "1.IH") simp_all
    ultimately show ?thesis by simp
  next
    case False
    then have "look_ahead x i a = a" by (rule look_ahead_unfold_F)
    with "1.prems" show ?thesis by simp
  qed
qed

lemma local_maxima_from_sound:
  "1 \<le> i \<Longrightarrow> p \<in> set (local_maxima_from x i) \<Longrightarrow>
   (\<exists>l r. 1 \<le> l \<and> l \<le> r \<and> r + 1 < length x \<and> p = (l + r) div 2 \<and>
       (\<forall>j. l \<le> j \<and> j \<le> r \<longrightarrow> x ! j = x ! l) \<and> x ! (l - 1) < x ! l \<and> x ! (r + 1) < x ! r)"
proof (induction x i rule: local_maxima_from.induct)
  case (1 x i)
  show ?case
  proof (cases "i < length x - 1")
    case False
    then have "local_maxima_from x i = []" by (subst local_maxima_from.simps) simp
    with "1.prems" show ?thesis by simp
  next
    case inr: True
    show ?thesis
    proof (cases "x ! (i - 1) < x ! i")
      case False
      with inr have "local_maxima_from x i = local_maxima_from x (i + 1)"
        by (subst local_maxima_from.simps) simp
      with "1.prems" have "p \<in> set (local_maxima_from x (i + 1))" by simp
      then show ?thesis by (intro "1.IH"(3) [OF inr False]) simp_all
    next
      case up: True
      define ia where "ia = look_ahead x i (i + 1)"
      have ia_ge: "i + 1 \<le> ia" unfolding ia_def by (rule look_ahead_ge)
      have ia_le: "ia \<le> length x - 1" unfolding ia_def using inr by (intro look_ahead_le) simp
      show ?thesis
      proof (cases "x ! ia < x ! i")
        case False
        with inr up have "local_maxima_from x i = local_maxima_from x (i + 1)"
          by (subst local_maxima_from.simps) (simp add: ia_def Let_def)
        with "1.prems" have "p \<in> set (local_maxima_from x (i + 1))" by simp
        then show ?thesis by (intro "1.IH"(2) [OF inr up ia_def False]) simp_all
      next
        case down: True
        have unf: "local_maxima_from x i = ((i + (ia - 1)) div 2) # local_maxima_from x (ia + 1)"
          using inr up down by (subst local_maxima_from.simps) (simp add: ia_def Let_def)
        show ?thesis
        proof (cases "p = (i + (ia - 1)) div 2")
          case True
          have eqs: "\<forall>j. i \<le> j \<and> j \<le> ia - 1 \<longrightarrow> x ! j = x ! i"
          proof (intro allI impI)
            fix j assume j: "i \<le> j \<and> j \<le> ia - 1"
            show "x ! j = x ! i"
            proof (cases "j = i")
              case False
              with j have "i + 1 \<le> j" "j < ia" using ia_ge by auto
              then show ?thesis unfolding ia_def by (rule look_ahead_plateau)
            qed simp
          qed
          have last_eq: "x ! (ia - 1) = x ! i"
            using eqs [rule_format, of "ia - 1"] ia_ge by simp
          have fall: "x ! (ia - 1 + 1) < x ! (ia - 1)"
            using down ia_ge last_eq by simp
          have inside: "ia - 1 + 1 < length x" using ia_le ia_ge inr by simp
          have le: "i \<le> ia - 1" using ia_ge by simp
          show ?thesis
          proof (intro exI conjI)
            show "1 \<le> i" by (rule "1.prems"(1))
            show "i \<le> ia - 1" by (rule le)
            show "ia - 1 + 1 < length x" by (rule inside)
            show "p = (i + (ia - 1)) div 2" by (rule True)
            show "\<forall>j. i \<le> j \<and> j \<le> ia - 1 \<longrightarrow> x ! j = x ! i" by (rule eqs)
            show "x ! (i - 1) < x ! i" by (rule up)
            show "x ! (ia - 1 + 1) < x ! (ia - 1)" by (rule fall)
          qed
        next
          case False
          with unf "1.prems" have "p \<in> set (local_maxima_from x (ia + 1))" by simp
          then show ?thesis by (intro "1.IH"(1) [OF inr up ia_def down]) simp_all
        qed
      qed
    qed
  qed
qed


lemma plateau_interior:
  fixes l r n p :: nat
  assumes "1 \<le> l" "l \<le> r" "r + 1 < n" "p = (l + r) div 2"
  shows "0 < p \<and> p + 1 < n"
  using assms by auto

text \<open>
  Claim C8 (as stated: every reported point is greater than both of its immediate
  neighbours) does not hold. On \<open>[0, 1, 1, 0]\<close> the finder reports index 1, whose right
  neighbour is equal to it: scipy reports a flat peak at the middle of its run.
\<close>

theorem find_peaks_simple_1d_counterexample:
  "ndim \<lparr>nd_shape = [4], nd_data = [0, 1, 1, 0]\<rparr> = 1 \<and>
   find_peaks_simple \<lparr>nd_shape = [4], nd_data = [0, 1, 1, 0]\<rparr> = Inr [[1]] \<and>
   \<not> ([0, 1, 1, 0::real] ! 2 < [0, 1, 1, 0] ! 1)"
  by code_simp

text \<open>
  Claim C8, amended. On a one-dimensional array the default finder returns one
  coordinate array. Every index \<open>p\<close> in it is interior (neither the first nor the last
  index) and is the middle, rounded down, of a run \<open>l..r\<close> of equal samples that lies inside
  the array and whose two neighbouring samples, at \<open>l - 1\<close> and \<open>r + 1\<close>, are strictly
  smaller; a run of one sample is a strict local maximum. On \<open>[0, 1, 0, 2, 0]\<close> the finder
  reports exactly the indices 1 and 3.
\<close>

theorem find_peaks_simple_1d:
  assumes "ndim x = 1"
  shows "(\<exists>ps. find_peaks_simple x = Inr [ps] \<and>
            (\<forall>p \<in> set ps. 0 < p \<and> p + 1 < length (nd_data x) \<and>
               (\<exists>l r. 1 \<le> l \<and> l \<le> r \<and> r + 1 < length (nd_data x) \<and> p = (l + r) div 2 \<and>
                  (\<forall>j. l \<le> j \<and> j \<le> r \<longrightarrow> nd_data x ! j = nd_data x ! l) \<and>
                  nd_data x ! (l - 1) < nd_data x ! l \<and> nd_data x ! (r + 1) < nd_data x ! r))) \<and>
         find_peaks_simple \<lparr>nd_shape = [5], nd_data = [0, 1, 0, 2, 0]\<rparr> = Inr [[1, 3]]"
proof -
  have res: "find_peaks_simple x = Inr [local_maxima_1d (nd_data x)]"
    using assms by (simp add: find_peaks_simple_def)
  have each: "0 < p \<and> p + 1 < length (nd_data x) \<and>
       (\<exists>l r. 1 \<le> l \<and> l \<le> r \<and> r + 1 < length (nd_data x) \<and> p = (l + r) div 2 \<and>
          (\<forall>j. l \<le> j \<and> j \<le> r \<longrightarrow> nd_data x ! j = nd_data x ! l) \<and>
          nd_data x ! (l - 1) < nd_data x ! l \<and> nd_data x ! (r + 1) < nd_data x ! r)"
    if "p \<in> set (local_maxima_1d (nd_data x))" for p
  proof -
    from that have p: "p \<in> set (local_maxima_from (nd_data x) 1)"
      by (simp add: local_maxima_1d_def)
    have run: "\<exists>l r. 1 \<le> l \<and> l \<le> r \<and> r + 1 < length (nd_data x) \<and> p = (l + r) div 2 \<and>
         (\<forall>j. l \<le> j \<and> j \<le> r \<longrightarrow> nd_data x ! j = nd_data x ! l) \<and>
         nd_data x ! (l - 1) < nd_data x ! l \<and> nd_data x ! (r + 1) < nd_data x ! r"
      by (rule local_maxima_from_sound [OF _ p]) simp
    then obtain l r where "1 \<le> l" "l \<le> r" "r + 1 < length (nd_data x)" "p = (l + r) div 2"
      by blast
    then have "0 < p \<and> p + 1 < length (nd_data x)" by (rule plateau_interior)
    with run show ?thesis by blast
  qed
  have example: "find_peaks_simple \<lparr>nd_shape = [5], nd_data = [0, 1, 0, 2, 0]\<rparr> = Inr [[1, 3]]"
    by code_simp
  from res each example show ?thesis by blast
qed

theorem find_peaks_simple_1d_witness:
  "ndim \<lparr>nd_shape = [4], nd_data = [0, 1, 1, 0]\<rparr> = 1 \<and>
   find_peaks_simple \<lparr>nd_shape = [4], nd_data = [0, 1, 1, 0]\<rparr> = Inr [[1]] \<and>
   (\<exists>l r. 1 \<le> l \<and> l \<le> r \<and> r + 1 < (4::nat) \<and> (1::nat) = (l + r) div 2 \<and>
      [0, 1, 1, 0::real] ! (l - 1) < [0, 1, 1, 0] ! l \<and> [0, 1, 1, 0::real] ! (r + 1) < [0, 1, 1, 0] ! r)"
proof -
  let ?x = "\<lparr>nd_shape = [4], nd_data = [0, 1, 1, 0]\<rparr>"
  have rank: "ndim ?x = 1" by code_simp
  have run: "find_peaks_simple ?x = Inr [[1]]" by code_simp
  from find_peaks_simple_1d [OF rank] obtain ps where
    ps: "find_peaks_simple ?x = Inr [ps]" and
    all: "\<forall>p \<in> set ps. 0 < p \<and> p + 1 < length (nd_data ?x) \<and>
               (\<exists>l r. 1 \<le> l \<and> l \<le> r \<and> r + 1 < length (nd_data ?x) \<and> p = (l + r) div 2 \<and>
                  (\<forall>j. l \<le> j \<and> j \<le> r \<longrightarrow> nd_data ?x ! j = nd_data ?x ! l) \<and>
                  nd_data ?x ! (l - 1) < nd_data ?x ! l \<and> nd_data ?x ! (r + 1) < nd_data ?x ! r)"
    by blast
  from ps run have "ps = [1]" by simp
  with all have "\<exists>l r. 1 \<le> l \<and> l \<le> r \<and> r + 1 < length (nd_data ?x) \<and> (1::nat) = (l + r) div 2 \<and>
                  (\<forall>j. l \<le> j \<and> j \<le> r \<longrightarrow> nd_data ?x ! j = nd_data ?x ! l) \<and>
                  nd_data ?x ! (l - 1) < nd_data ?x ! l \<and> nd_data ?x ! (r + 1) < nd_data ?x ! r"
    by simp
  then obtain l r where "1 \<le> l" "l \<le> r" "r + 1 < (4::nat)" "(1::nat) = (l + r) div 2"
    "[0, 1, 1, 0::real] ! (l - 1) < [0, 1, 1, 0] ! l" "[0, 1, 1, 0::real] ! (r + 1) < [0, 1, 1, 0] ! r"
    by auto
  then have "\<exists>l r. 1 \<le> l \<and> l \<le> r \<and> r + 1 < (4::nat) \<and> (1::nat) = (l + r) div 2 \<and>
      [0, 1, 1, 0::real] ! (l - 1) < [0, 1, 1, 0] ! l \<and> [0, 1, 1, 0::real] ! (r + 1) < [0, 1, 1, 0] ! r"
    by blast
  with rank run show ?thesis by blast
qed

section \<open>Properties of the steering-matrix cache\<close>

lemma and_then_Inr:
  "and_then m f s = (Inr r, s') \<longleftrightarrow> (\<exists>x s1. m s = (Inr x, s1) \<and> f x s1 = (Inr r, s'))"
  by (auto simp: and_then_def split: prod.splits sum.splits)

lemma and_then_step: "m s = (Inr x, s1) \<Longrightarrow> and_then m f s = f x s1"
  by (simp add: and_then_def)

lemma and_then_raise: "m s = (Inl e, s1) \<Longrightarrow> and_then m f s = (Inl e, s1)"
  by (simp add: and_then_def)

lemma attempt_apply: "attempt r s = (r, s)"
  by (simp add: attempt_def)

lemma returns_apply: "returns x s = (Inr x, s)"
  by (simp add: returns_def)

lemma emit_apply: "emit ev s = (Inr (), s\<lparr>trace := trace s @ [ev]\<rparr>)"
  by (simp add: emit_def)

lemma steering_matrix_apply:
  "steering_matrix self placement s =
     (design self placement (wavelength self) ''known'',
      s\<lparr>trace := trace s @ [SteeringCall placement (wavelength self) ''known'']\<rparr>)"
  by (simp add: steering_matrix_def and_then_def emit_def attempt_def)

lemma get_steering_matrix_cached:
  "cached_A s = Some A \<Longrightarrow> get_steering_matrix self s = (Inr A, s)"
  by (simp add: get_steering_matrix_def returns_def)

lemma get_steering_matrix_fresh:
  assumes "cached_A s = None"
    and "design self (source_placement (grid self) (search_grid self)) (wavelength self) ''known'' = Inr A"
  shows "get_steering_matrix self s =
     (Inr A, (if enable_caching self
              then s\<lparr>trace := trace s @ [SteeringCall (source_placement (grid self) (search_grid self))
                                            (wavelength self) ''known''], cached_A := Some A\<rparr>
              else s\<lparr>trace := trace s @ [SteeringCall (source_placement (grid self) (search_grid self))
                                            (wavelength self) ''known'']\<rparr>))"
  using assms
  by (simp add: get_steering_matrix_def and_then_def steering_matrix_apply returns_def)

lemma get_repeatedly_cached:
  "cached_A s = Some A \<Longrightarrow> get_repeatedly n self s = (replicate n (Inr A), s)"
  by (induction n) (simp_all add: get_steering_matrix_cached)

lemma get_repeatedly_uncached:
  assumes "\<not> enable_caching self"
    and "design self (source_placement (grid self) (search_grid self)) (wavelength self) ''known'' = Inr A"
  shows "cached_A s = None \<Longrightarrow> get_repeatedly n self s =
     (replicate n (Inr A),
      s\<lparr>trace := trace s @ replicate n (SteeringCall (source_placement (grid self) (search_grid self))
                                            (wavelength self) ''known'')\<rparr>)"
proof (induction n arbitrary: s)
  case 0
  then show ?case by simp
next
  case (Suc n)
  let ?ev = "SteeringCall (source_placement (grid self) (search_grid self)) (wavelength self) ''known''"
  have first: "get_steering_matrix self s = (Inr A, s\<lparr>trace := trace s @ [?ev]\<rparr>)"
    using get_steering_matrix_fresh [OF Suc.prems assms(2)] assms(1) by simp
  have "cached_A (s\<lparr>trace := trace s @ [?ev]\<rparr>) = None" using Suc.prems by simp
  from Suc.IH [OF this] first show ?case
    by (simp add: replicate_app_Cons_same)
qed

text \<open>
  Claim C6. Take an estimator whose cache slot is empty and whose design returns the
  matrix \<open>A\<close> for the grid's placement. With caching enabled, any positive number of calls
  of the getter all return \<open>A\<close>, the design is called once (one event is added to the
  trace, by the first call) and the slot retains \<open>A\<close>. With caching disabled, \<open>n\<close> calls
  all return \<open>A\<close> and call the design \<open>n\<close> times, and the slot stays empty.
\<close>

theorem steering_matrix_cache:
  assumes "cached_A s = None"
    and "design self (source_placement (grid self) (search_grid self)) (wavelength self) ''known'' = Inr A"
  shows "(enable_caching self \<and> 0 < n \<longrightarrow>
            get_repeatedly n self s =
              (replicate n (Inr A),
               s\<lparr>trace := trace s @ [SteeringCall (source_placement (grid self) (search_grid self))
                                        (wavelength self) ''known''],
                  cached_A := Some A\<rparr>)) \<and>
         (\<not> enable_caching self \<longrightarrow>
            get_repeatedly n self s =
              (replicate n (Inr A),
               s\<lparr>trace := trace s @ replicate n (SteeringCall (source_placement (grid self) (search_grid self))
                                                     (wavelength self) ''known'')\<rparr>))"
proof (intro conjI impI)
  assume c: "enable_caching self \<and> 0 < n"
  then obtain m where n: "n = Suc m" by (cases n) auto
  let ?s1 = "s\<lparr>trace := trace s @ [SteeringCall (source_placement (grid self) (search_grid self))
                                        (wavelength self) ''known''], cached_A := Some A\<rparr>"
  have first: "get_steering_matrix self s = (Inr A, ?s1)"
    using get_steering_matrix_fresh [OF assms] c by simp
  have "get_repeatedly m self ?s1 = (replicate m (Inr A), ?s1)"
    by (rule get_repeatedly_cached) simp
  with first show "get_repeatedly n self s = (replicate n (Inr A), ?s1)"
    by (simp add: n)
next
  assume "\<not> enable_caching self"
  from get_repeatedly_uncached [OF this assms(2) assms(1)]
  show "get_repeatedly n self s =
              (replicate n (Inr A),
               s\<lparr>trace := trace s @ replicate n (SteeringCall (source_placement (grid self) (search_grid self))
                                                     (wavelength self) ''known'')\<rparr>)" .
qed

theorem steering_matrix_cache_witness:
  "cached_A fresh = None \<and>
   design (line_estimator True) (source_placement (grid (line_estimator True)) (search_grid (line_estimator True)))
     (wavelength (line_estimator True)) ''known'' = Inr [0, 1, 2, 3, 4] \<and>
   get_repeatedly 3 (line_estimator True) fresh =
     ([Inr [0, 1, 2, 3, 4], Inr [0, 1, 2, 3, 4], Inr [0, 1, 2, 3, 4]],
      \<lparr>cached_A = Some [0, 1, 2, 3, 4], trace = [SteeringCall [0, 1, 2, 3, 4] 1 ''known'']\<rparr>) \<and>
   get_repeatedly 3 (line_estimator False) fresh =
     ([Inr [0, 1, 2, 3, 4], Inr [0, 1, 2, 3, 4], Inr [0, 1, 2, 3, 4]],
      \<lparr>cached_A = None,
         trace = [SteeringCall [0, 1, 2, 3, 4] 1 ''known'', SteeringCall [0, 1, 2, 3, 4] 1 ''known'',
                  SteeringCall [0, 1, 2, 3, 4] 1 ''known'']\<rparr>)"
proof -
  have none: "cached_A fresh = None" by code_simp
  have d1: "design (line_estimator True)
      (source_placement (grid (line_estimator True)) (search_grid (line_estimator True)))
      (wavelength (line_estimator True)) ''known'' = Inr [0, 1, 2, 3, 4]" by code_simp
  have d2: "design (line_estimator False)
      (source_placement (grid (line_estimator False)) (search_grid (line_estimator False)))
      (wavelength (line_estimator False)) ''known'' = Inr [0, 1, 2, 3, 4]" by code_simp
  have on: "enable_caching (line_estimator True) \<and> (0::nat) < 3" by code_simp
  have off: "\<not> enable_caching (line_estimator False)" by code_simp
  have p: "source_placement (grid (line_estimator True)) (search_grid (line_estimator True)) = [0, 1, 2, 3, 4]"
    "source_placement (grid (line_estimator False)) (search_grid (line_estimator False)) = [0, 1, 2, 3, 4]"
    "wavelength (line_estimator True) = 1" "wavelength (line_estimator False) = 1"
    by code_simp+
  have three: "replicate 3 x = [x, x, x]" for x :: 'a by (simp add: numeral_3_eq_3)
  have a: "get_repeatedly 3 (line_estimator True) fresh =
     ([Inr [0, 1, 2, 3, 4], Inr [0, 1, 2, 3, 4], Inr [0, 1, 2, 3, 4]],
      \<lparr>cached_A = Some [0, 1, 2, 3, 4], trace = [SteeringCall [0, 1, 2, 3, 4] 1 ''known'']\<rparr>)"
    using steering_matrix_cache [OF none d1, of 3] on
    by (simp add: p three fresh_def)
  have b: "get_repeatedly 3 (line_estimator False) fresh =
     ([Inr [0, 1, 2, 3, 4], Inr [0, 1, 2, 3, 4], Inr [0, 1, 2, 3, 4]],
      \<lparr>cached_A = None,
         trace = [SteeringCall [0, 1, 2, 3, 4] 1 ''known'', SteeringCall [0, 1, 2, 3, 4] 1 ''known'',
                  SteeringCall [0, 1, 2, 3, 4] 1 ''known'']\<rparr>)"
    using steering_matrix_cache [OF none d2, of 3] off
    by (simp add: p three fresh_def)
  from none d1 a b show ?thesis by blast
qed

section \<open>Properties of the estimation\<close>

text \<open>
  Claim C2. When the steering matrix is obtained, the spectrum function returns, the
  spectrum fits the grid and the peak finder returns a tuple whose first coordinate
  array is shorter than \<open>k\<close>, the call returns normally with \<^verbatim>\<open>(False, None)\<close>, or
  \<^verbatim>\<open>(False, None, None)\<close> when the spectrum was asked for. The state is the one the
  steering-matrix getter left: nothing was written and no collaborator was called after
  the count of the peaks, so no refinement ran; and the result is the same for every
  argsort and whether or not refinement was asked for.
\<close>

theorem estimate_too_few_peaks:
  assumes "get_steering_matrix self s = (Inr A, s1)"
    and "f_sp A = Inr sp_flat"
    and "reshape sp_flat (shape (grid self) (search_grid self)) = Inr sp"
    and "peak_finder self sp = Inr peak_indices"
    and "first_length peak_indices = Inr n_peaks"
    and "int n_peaks < k"
  shows "estimate np_argsort self f_sp k return_spectrum refine refinement_density refinement_iters s =
           (Inr (if return_spectrum then Triple_result False None None else Pair_result False None), s1)"
  using assms by (simp add: estimate_def and_then_def attempt_def returns_def)

theorem estimate_too_few_peaks_witness:
  "get_steering_matrix (line_estimator True) fresh =
     (Inr [0, 1, 2, 3, 4], \<lparr>cached_A = Some [0, 1, 2, 3, 4], trace = [SteeringCall [0, 1, 2, 3, 4] 1 ''known'']\<rparr>) \<and>
   two_peaks [0, 1, 2, 3, 4] = Inr [0, 3, 0, 5, 0] \<and>
   reshape [0, 3, 0, 5, 0] (shape (grid (line_estimator True)) (search_grid (line_estimator True))) =
     Inr \<lparr>nd_shape = [5], nd_data = [0, 3, 0, 5, 0]\<rparr> \<and>
   peak_finder (line_estimator True) \<lparr>nd_shape = [5], nd_data = [0, 3, 0, 5, 0]\<rparr> = Inr [[1, 3]] \<and>
   first_length [[1, 3]] = Inr 2 \<and> int 2 < 3 \<and>
   estimate stable_argsort (line_estimator True) two_peaks 3 True True 10 3 fresh =
     (Inr (Triple_result False None None),
      \<lparr>cached_A = Some [0, 1, 2, 3, 4], trace = [SteeringCall [0, 1, 2, 3, 4] 1 ''known'']\<rparr>)"
proof -
  have a: "get_steering_matrix (line_estimator True) fresh =
     (Inr [0, 1, 2, 3, 4], \<lparr>cached_A = Some [0, 1, 2, 3, 4], trace = [SteeringCall [0, 1, 2, 3, 4] 1 ''known'']\<rparr>)"
    by code_simp
  have b: "two_peaks [0, 1, 2, 3, 4] = Inr [0, 3, 0, 5, 0]" by code_simp
  have c: "reshape [0, 3, 0, 5, 0] (shape (grid (line_estimator True)) (search_grid (line_estimator True))) =
     Inr \<lparr>nd_shape = [5], nd_data = [0, 3, 0, 5, 0]\<rparr>" by code_simp
  have d: "peak_finder (line_estimator True) \<lparr>nd_shape = [5], nd_data = [0, 3, 0, 5, 0]\<rparr> = Inr [[1, 3]]"
    by code_simp
  have e: "first_length [[1, 3]] = Inr 2" by code_simp
  have f: "int 2 < 3" by simp
  from estimate_too_few_peaks [where f_sp = two_peaks and np_argsort = stable_argsort
      and return_spectrum = True and refine = True and refinement_density = 10
      and refinement_iters = 3, OF a b c d e f]
  have "estimate stable_argsort (line_estimator True) two_peaks 3 True True 10 3 fresh =
     (Inr (Triple_result False None None),
      \<lparr>cached_A = Some [0, 1, 2, 3, 4], trace = [SteeringCall [0, 1, 2, 3, 4] 1 ''known'']\<rparr>)"
    by simp
  with a b c d e f show ?thesis by blast
qed

section \<open>Properties of the refinement\<close>

lemma slot_events_append:
  "slot_events i (xs @ ys) = slot_events i xs @ slot_events i ys"
  by (induction i xs rule: slot_events.induct) simp_all

lemma writes_of_append: "writes_of (xs @ ys) = writes_of xs @ writes_of ys"
  by (induction xs rule: writes_of.induct) simp_all

lemma refine_step_Inr:
  assumes "refine_step self f_sp density n_iters r i (locs, gs) s = (Inr (locs', gs'), s')"
  shows "i < length gs \<and> i < length locs \<and>
    (\<exists>i_max v. locate self f_sp (gs ! i) = Inr (i_max, v) \<and> locs' = locs[i := v] \<and>
       (if int r = n_iters - 1
        then gs' = gs \<and>
             trace s' = trace s @ [SteeringCall (source_placement (grid self) (gs ! i)) (wavelength self) ''known'',
                                   LocationWrite i v]
        else \<exists>c g'. unravel_index1 i_max (shape (grid self) (gs ! i)) = Inr c \<and>
               create_refined_grid_at (grid self) (gs ! i) c density = Inr g' \<and> gs' = gs[i := g'] \<and>
               trace s' = trace s @ [SteeringCall (source_placement (grid self) (gs ! i)) (wavelength self) ''known'',
                                     LocationWrite i v, CreateGridCall i c density]))"
  using assms
  by (auto simp: refine_step_def and_then_def attempt_def returns_def emit_def steering_matrix_apply
        locate_def item_def set_item_def split: sum.splits if_splits prod.splits)


lemma refine_step_slots:
  assumes "refine_step self f_sp density n_iters r i (locs, gs) s = (Inr (locs', gs'), s')"
  shows "i < length gs \<and> i < length locs \<and>
    (\<exists>i_max v. locate self f_sp (gs ! i) = Inr (i_max, v) \<and> locs' = locs[i := v] \<and>
       (if int r = n_iters - 1
        then gs' = gs \<and>
             (\<forall>j. slot_events j (trace s') =
                    slot_events j (trace s) @ (if j = i then [LocationWrite i v] else []))
        else \<exists>c g'. unravel_index1 i_max (shape (grid self) (gs ! i)) = Inr c \<and>
               create_refined_grid_at (grid self) (gs ! i) c density = Inr g' \<and> gs' = gs[i := g'] \<and>
               (\<forall>j. slot_events j (trace s') =
                      slot_events j (trace s) @
                        (if j = i then [LocationWrite i v, CreateGridCall i c density] else []))))"
proof -
  from refine_step_Inr [OF assms] obtain i_max v where
    b: "i < length gs" "i < length locs" and
    l: "locate self f_sp (gs ! i) = Inr (i_max, v)" "locs' = locs[i := v]" and
    c: "if int r = n_iters - 1
        then gs' = gs \<and>
             trace s' = trace s @ [SteeringCall (source_placement (grid self) (gs ! i)) (wavelength self) ''known'',
                                   LocationWrite i v]
        else \<exists>c g'. unravel_index1 i_max (shape (grid self) (gs ! i)) = Inr c \<and>
               create_refined_grid_at (grid self) (gs ! i) c density = Inr g' \<and> gs' = gs[i := g'] \<and>
               trace s' = trace s @ [SteeringCall (source_placement (grid self) (gs ! i)) (wavelength self) ''known'',
                                     LocationWrite i v, CreateGridCall i c density]"
    by blast
  show ?thesis
  proof (cases "int r = n_iters - 1")
    case True
    with c have "gs' = gs" and
      t: "trace s' = trace s @ [SteeringCall (source_placement (grid self) (gs ! i)) (wavelength self) ''known'',
                                   LocationWrite i v]" by simp_all
    from t have "\<forall>j. slot_events j (trace s') =
                    slot_events j (trace s) @ (if j = i then [LocationWrite i v] else [])"
      by (simp add: slot_events_append)
    with True b l \<open>gs' = gs\<close> show ?thesis by auto
  next
    case False
    with c obtain c' g' where
      u: "unravel_index1 i_max (shape (grid self) (gs ! i)) = Inr c'"
         "create_refined_grid_at (grid self) (gs ! i) c' density = Inr g'" "gs' = gs[i := g']" and
      t: "trace s' = trace s @ [SteeringCall (source_placement (grid self) (gs ! i)) (wavelength self) ''known'',
                                     LocationWrite i v, CreateGridCall i c' density]"
      by auto
    from t have "\<forall>j. slot_events j (trace s') =
                      slot_events j (trace s) @
                        (if j = i then [LocationWrite i v, CreateGridCall i c' density] else [])"
      by (simp add: slot_events_append)
    with False b l u show ?thesis by auto
  qed
qed

lemma sweep_Inr:
  assumes "for_each todo (refine_step self f_sp density n_iters r) (locs, gs) s = (Inr (locs', gs'), s')"
    and "distinct todo"
  shows "length locs' = length locs \<and> length gs' = length gs \<and>
    (\<forall>i. i \<notin> set todo \<longrightarrow>
       locs' ! i = locs ! i \<and> gs' ! i = gs ! i \<and> slot_events i (trace s') = slot_events i (trace s)) \<and>
    (\<forall>i \<in> set todo. i < length gs \<and> i < length locs \<and>
       (\<exists>evs. round_effect self f_sp density (int r = n_iters - 1) i (gs ! i) (locs' ! i) (gs' ! i) evs \<and>
          slot_events i (trace s') = slot_events i (trace s) @ evs))"
  using assms
proof (induction todo arbitrary: locs gs s)
  case Nil
  then show ?case by (simp add: returns_def)
next
  case (Cons a todo)
  from Cons.prems(1) obtain locs1 gs1 s1 where
    first: "refine_step self f_sp density n_iters r a (locs, gs) s = (Inr (locs1, gs1), s1)" and
    rest: "for_each todo (refine_step self f_sp density n_iters r) (locs1, gs1) s1 = (Inr (locs', gs'), s')"
    by (auto simp: and_then_Inr)
  from Cons.prems(2) have d: "distinct todo" and a: "a \<notin> set todo" by simp_all
  note IH = Cons.IH [OF rest d]
  from refine_step_slots [OF first] obtain i_max v where
    b: "a < length gs" "a < length locs" and
    l: "locate self f_sp (gs ! a) = Inr (i_max, v)" "locs1 = locs[a := v]" and
    c: "if int r = n_iters - 1
        then gs1 = gs \<and>
             (\<forall>j. slot_events j (trace s1) =
                    slot_events j (trace s) @ (if j = a then [LocationWrite a v] else []))
        else \<exists>c g'. unravel_index1 i_max (shape (grid self) (gs ! a)) = Inr c \<and>
               create_refined_grid_at (grid self) (gs ! a) c density = Inr g' \<and> gs1 = gs[a := g'] \<and>
               (\<forall>j. slot_events j (trace s1) =
                      slot_events j (trace s) @
                        (if j = a then [LocationWrite a v, CreateGridCall a c density] else []))"
    by blast
  have len1: "length locs1 = length locs" "length gs1 = length gs"
    using l c by (auto split: if_splits)
  have other: "locs1 ! j = locs ! j \<and> gs1 ! j = gs ! j \<and> slot_events j (trace s1) = slot_events j (trace s)"
    if "j \<noteq> a" for j
    using that l c by (auto split: if_splits)
  have here: "\<exists>evs. round_effect self f_sp density (int r = n_iters - 1) a (gs ! a) (locs1 ! a) (gs1 ! a) evs \<and>
      slot_events a (trace s1) = slot_events a (trace s) @ evs"
    using l c b unfolding round_effect_def by (auto split: if_splits)
  show ?case
  proof (intro conjI allI impI ballI)
    show "length locs' = length locs" using IH len1 by simp
    show "length gs' = length gs" using IH len1 by simp
  next
    fix i assume i: "i \<notin> set (a # todo)"
    then have "i \<notin> set todo" "i \<noteq> a" by simp_all
    with IH other [of i]
    show "locs' ! i = locs ! i" "gs' ! i = gs ! i" "slot_events i (trace s') = slot_events i (trace s)"
      by simp_all
  next
    fix i assume i: "i \<in> set (a # todo)"
    show "i < length gs" using i b IH len1 by auto
    show "i < length locs" using i b IH len1 by auto
    show "\<exists>evs. round_effect self f_sp density (int r = n_iters - 1) i (gs ! i) (locs' ! i) (gs' ! i) evs \<and>
          slot_events i (trace s') = slot_events i (trace s) @ evs"
    proof (cases "i = a")
      case True
      with a IH have "locs' ! a = locs1 ! a" "gs' ! a = gs1 ! a"
        "slot_events a (trace s') = slot_events a (trace s1)" by simp_all
      with here True show ?thesis by simp
    next
      case False
      with i have "i \<in> set todo" by simp
      with IH obtain evs where
        "round_effect self f_sp density (int r = n_iters - 1) i (gs1 ! i) (locs' ! i) (gs' ! i) evs"
        "slot_events i (trace s') = slot_events i (trace s1) @ evs" by blast
      with other [OF False] show ?thesis by auto
    qed
  qed
qed


lemma zoom_shape:
  "zoom self f_sp density i n g = Inr evs \<Longrightarrow>
     length (writes_of evs) = n \<and> length (grid_calls_of evs) = n - 1 \<and>
     (\<forall>cd \<in> set (grid_calls_of evs). snd cd = density)"
proof (induction n arbitrary: g evs)
  case 0
  then show ?case by simp
next
  case (Suc n)
  show ?case
  proof (cases "n = 0")
    case True
    with Suc.prems show ?thesis by (auto split: sum.splits prod.splits)
  next
    case False
    with Suc.prems obtain i_max v c g' evs' where
      "zoom self f_sp density i n g' = Inr evs'"
      "evs = LocationWrite i v # CreateGridCall i c density # evs'"
      by (auto split: sum.splits prod.splits)
    with Suc.IH [of g' evs'] False show ?thesis by auto
  qed
qed

lemma rounds_Inr:
  assumes "for_each [a..<n] (\<lambda>r. for_each [0..<m] (refine_step self f_sp density n_iters r)) (locs, gs) s =
             (Inr (locs', gs'), s')"
    and "n = nat n_iters" and "length gs = m" and "length locs = m"
  shows "length locs' = m \<and>
    (\<forall>i < m. \<exists>evs. zoom self f_sp density i (n - a) (gs ! i) = Inr evs \<and>
       slot_events i (trace s') = slot_events i (trace s) @ evs \<and>
       locs' ! i = last (locs ! i # writes_of evs))"
  using assms
proof (induction "n - a" arbitrary: a locs gs s)
  case 0
  then have "[a..<n] = []" by simp
  with "0.prems"(1) have "locs' = locs" "s' = s" by (simp_all add: returns_def)
  with 0 show ?case by simp
next
  case (Suc k)
  then have lt: "a < n" and k: "n - Suc a = k" by simp_all
  then have upt: "[a..<n] = a # [Suc a..<n]" by (simp add: upt_conv_Cons)
  from Suc.prems(1) obtain locs1 gs1 s1 where
    first: "for_each [0..<m] (refine_step self f_sp density n_iters a) (locs, gs) s = (Inr (locs1, gs1), s1)" and
    rest: "for_each [Suc a..<n] (\<lambda>r. for_each [0..<m] (refine_step self f_sp density n_iters r)) (locs1, gs1) s1 =
             (Inr (locs', gs'), s')"
    unfolding upt by (auto simp: and_then_Inr)
  have sw: "length locs1 = length locs \<and> length gs1 = length gs \<and>
    (\<forall>i. i \<notin> set [0..<m] \<longrightarrow>
       locs1 ! i = locs ! i \<and> gs1 ! i = gs ! i \<and> slot_events i (trace s1) = slot_events i (trace s)) \<and>
    (\<forall>i \<in> set [0..<m]. i < length gs \<and> i < length locs \<and>
       (\<exists>evs. round_effect self f_sp density (int a = n_iters - 1) i (gs ! i) (locs1 ! i) (gs1 ! i) evs \<and>
          slot_events i (trace s1) = slot_events i (trace s) @ evs))"
    by (rule sweep_Inr [OF first]) simp
  then have len1: "length gs1 = m" "length locs1 = m" using Suc.prems by simp_all
  have IH: "length locs' = m \<and>
    (\<forall>i < m. \<exists>evs. zoom self f_sp density i (n - Suc a) (gs1 ! i) = Inr evs \<and>
       slot_events i (trace s') = slot_events i (trace s1) @ evs \<and>
       locs' ! i = last (locs1 ! i # writes_of evs))"
    using Suc.hyps(1) [OF k [symmetric] rest Suc.prems(2) len1] .
  have final: "(int a = n_iters - 1) = (k = 0)"
    using lt k Suc.prems(2) by auto
  have na: "n - a = Suc k" using Suc.hyps(2) by simp
  show ?case
  proof (intro conjI allI impI)
    show "length locs' = m" using IH by simp
  next
    fix i assume i: "i < m"
    then have im: "i \<in> set [0..<m]" by simp
    from sw im have "\<exists>evs. round_effect self f_sp density (int a = n_iters - 1) i (gs ! i) (locs1 ! i) (gs1 ! i) evs \<and>
          slot_events i (trace s1) = slot_events i (trace s) @ evs"
      by blast
    then obtain evs0 where
      re: "round_effect self f_sp density (k = 0) i (gs ! i) (locs1 ! i) (gs1 ! i) evs0" and
      t1: "slot_events i (trace s1) = slot_events i (trace s) @ evs0"
      unfolding final by blast
    from IH i obtain evs1 where
      z1: "zoom self f_sp density i k (gs1 ! i) = Inr evs1" and
      t2: "slot_events i (trace s') = slot_events i (trace s1) @ evs1" and
      w: "locs' ! i = last (locs1 ! i # writes_of evs1)"
      unfolding k by blast
    from re obtain i_max where loc: "locate self f_sp (gs ! i) = Inr (i_max, locs1 ! i)"
      unfolding round_effect_def by blast
    show "\<exists>evs. zoom self f_sp density i (n - a) (gs ! i) = Inr evs \<and>
       slot_events i (trace s') = slot_events i (trace s) @ evs \<and>
       locs' ! i = last (locs ! i # writes_of evs)"
    proof (cases "k = 0")
      case True
      with re loc have g: "gs1 ! i = gs ! i" and e0: "evs0 = [LocationWrite i (locs1 ! i)]"
        unfolding round_effect_def by auto
      from True z1 have e1: "evs1 = []" by simp
      have "zoom self f_sp density i (n - a) (gs ! i) = Inr (evs0 @ evs1)"
        unfolding na using loc True e0 e1 by simp
      moreover have "slot_events i (trace s') = slot_events i (trace s) @ (evs0 @ evs1)"
        using t1 t2 by simp
      moreover have "locs' ! i = last (locs ! i # writes_of (evs0 @ evs1))"
        using w e0 e1 by simp
      ultimately show ?thesis by blast
    next
      case False
      with re loc obtain c where
        u: "unravel_index1 i_max (shape (grid self) (gs ! i)) = Inr c"
           "create_refined_grid_at (grid self) (gs ! i) c density = Inr (gs1 ! i)" and
        e0: "evs0 = [LocationWrite i (locs1 ! i), CreateGridCall i c density]"
        unfolding round_effect_def by auto
      have "zoom self f_sp density i (n - a) (gs ! i) = Inr (evs0 @ evs1)"
        unfolding na using loc False u z1 e0 by simp
      moreover have "slot_events i (trace s') = slot_events i (trace s) @ (evs0 @ evs1)"
        using t1 t2 by simp
      moreover have "locs' ! i = last (locs ! i # writes_of (evs0 @ evs1))"
        using w e0 by (simp add: writes_of_append)
      ultimately show ?thesis by blast
    qed
  qed
qed

text \<open>
  Claim C5. Take a refinement run that returns, on as many sub-grids as there are
  estimates. The sequence of estimates keeps its length, and for every estimate \<open>i\<close> the
  events of the run that concern \<open>i\<close> are exactly those of \<open>zoom\<close> on the \<open>i\<close>-th initial
  sub-grid: \<open>n_iters\<close> writes to location \<open>i\<close>, each of the sub-grid point at the first
  maximum of the spectrum function on that sub-grid's steering matrix, and after each
  write but the last the construction of a finer sub-grid around that point, \<open>n_iters - 1\<close>
  constructions in all. Position \<open>i\<close> of the result holds the last value written to it (the
  initial estimate when \<open>n_iters\<close> is not positive): writes go to their own position only.
\<close>

theorem refine_estimates_rounds:
  assumes run: "refine_estimates self f_sp est0 peak_indices density n_iters s = (Inr est, s')"
    and grids: "create_refined_grids_at (grid self) (search_grid self) peak_indices density = Inr subgrids"
    and each: "length subgrids = length est0"
  shows "length est = length est0 \<and>
    (\<forall>i < length est0. \<exists>evs.
       zoom self f_sp density i (nat n_iters) (subgrids ! i) = Inr evs \<and>
       slot_events i (trace s') = slot_events i (trace s) @ evs \<and>
       length (writes_of evs) = nat n_iters \<and>
       length (grid_calls_of evs) = nat n_iters - 1 \<and>
       est ! i = last (est0 ! i # writes_of evs))"
proof -
  let ?s0 = "s\<lparr>trace := trace s @ [CreateGridsCall peak_indices density]\<rparr>"
  from run grids obtain gs' where
    loop: "for_each [0..<nat n_iters]
             (\<lambda>r. for_each [0..<length subgrids] (refine_step self f_sp density n_iters r))
             (est0, subgrids) ?s0 = (Inr (est, gs'), s')"
    by (auto simp: refine_estimates_def and_then_Inr emit_def attempt_def returns_def)
  have t0: "slot_events i (trace ?s0) = slot_events i (trace s)" for i
    by (simp add: slot_events_append)
  from rounds_Inr [OF loop refl refl each [symmetric]]
  have len: "length est = length subgrids" and
    all: "\<forall>i < length subgrids. \<exists>evs. zoom self f_sp density i (nat n_iters - 0) (subgrids ! i) = Inr evs \<and>
       slot_events i (trace s') = slot_events i (trace ?s0) @ evs \<and>
       est ! i = last (est0 ! i # writes_of evs)"
    by blast+
  show ?thesis
  proof (intro conjI allI impI)
    show "length est = length est0" using len each by simp
  next
    fix i assume "i < length est0"
    with all each obtain evs where
      z: "zoom self f_sp density i (nat n_iters) (subgrids ! i) = Inr evs" and
      t: "slot_events i (trace s') = slot_events i (trace ?s0) @ evs" and
      w: "est ! i = last (est0 ! i # writes_of evs)"
      by auto
    from zoom_shape [OF z] t w z t0 [of i]
    show "\<exists>evs. zoom self f_sp density i (nat n_iters) (subgrids ! i) = Inr evs \<and>
       slot_events i (trace s') = slot_events i (trace s) @ evs \<and>
       length (writes_of evs) = nat n_iters \<and>
       length (grid_calls_of evs) = nat n_iters - 1 \<and>
       est ! i = last (est0 ! i # writes_of evs)"
      by auto
  qed
qed


theorem refine_estimates_rounds_witness:
  "refine_estimates (line_estimator True) off_grid_peak [1] [[1]] 2 3 fresh =
     (Inr [5 / 4],
      \<lparr>cached_A = None,
         trace = [CreateGridsCall [[1]] 2,
                  SteeringCall [0, 1 / 2, 1, 3 / 2, 2] 1 ''known'', LocationWrite 0 1,
                  CreateGridCall 0 [2] 2,
                  SteeringCall [1 / 2, 3 / 4, 1, 5 / 4, 3 / 2] 1 ''known'', LocationWrite 0 (5 / 4),
                  CreateGridCall 0 [3] 2,
                  SteeringCall [1, 9 / 8, 5 / 4, 11 / 8, 3 / 2] 1 ''known'', LocationWrite 0 (5 / 4)]\<rparr>) \<and>
   create_refined_grids_at (grid (line_estimator True)) (search_grid (line_estimator True)) [[1]] 2 =
     Inr [Line_grid 0 (1 / 2) 5] \<and>
   length [Line_grid 0 (1 / 2) 5] = length [1::real] \<and>
   (\<exists>evs. zoom (line_estimator True) off_grid_peak 2 0 (nat 3) ([Line_grid 0 (1 / 2) 5] ! 0) = Inr evs \<and>
      length (writes_of evs) = nat 3 \<and> length (grid_calls_of evs) = nat 3 - 1 \<and>
      [5 / 4] ! 0 = last ([1] ! 0 # writes_of evs))"
proof -
  let ?s' = "\<lparr>cached_A = None,
         trace = [CreateGridsCall [[1]] 2,
                  SteeringCall [0, 1 / 2, 1, 3 / 2, 2] 1 ''known'', LocationWrite 0 1,
                  CreateGridCall 0 [2] 2,
                  SteeringCall [1 / 2, 3 / 4, 1, 5 / 4, 3 / 2] 1 ''known'', LocationWrite 0 (5 / 4),
                  CreateGridCall 0 [3] 2,
                  SteeringCall [1, 9 / 8, 5 / 4, 11 / 8, 3 / 2] 1 ''known'', LocationWrite 0 (5 / 4)]\<rparr>"
  have run: "refine_estimates (line_estimator True) off_grid_peak [1] [[1]] 2 3 fresh = (Inr [5 / 4], ?s')"
    by code_simp
  have grids: "create_refined_grids_at (grid (line_estimator True)) (search_grid (line_estimator True)) [[1]] 2 =
     Inr [Line_grid 0 (1 / 2) 5]"
    by code_simp
  have each: "length [Line_grid 0 (1 / 2) 5] = length [1::real]" by simp
  have first: "0 < length [1::real]" by simp
  note all = refine_estimates_rounds [OF run grids each, THEN conjunct2, rule_format, OF first]
  from all have "\<exists>evs.
       zoom (line_estimator True) off_grid_peak 2 0 (nat 3) ([Line_grid 0 (1 / 2) 5] ! 0) = Inr evs \<and>
       length (writes_of evs) = nat 3 \<and>
       length (grid_calls_of evs) = nat 3 - 1 \<and>
       [5 / 4] ! 0 = last ([1] ! 0 # writes_of evs)"
    by (elim exE conjE) (intro exI conjI, assumption+)
  with run grids each show ?thesis by (intro conjI) assumption+
qed

section \<open>Properties of the selection of the estimates\<close>

lemma stable_argsort_ok: "argsort_ok stable_argsort"
  by (simp add: argsort_ok_def stable_argsort_def)

lemma estimate_resolved_Inr:
  assumes run: "estimate np_argsort self f_sp k rs refine d it s = (Inr r, s')"
    and res: "resolved r"
  shows "\<exists>A s1 sp_flat sp peak_indices n_peaks peak_values top_peaks flattened est est'.
    get_steering_matrix self s = (Inr A, s1) \<and> f_sp A = Inr sp_flat \<and>
    reshape sp_flat (shape (grid self) (search_grid self)) = Inr sp \<and>
    peak_finder self sp = Inr peak_indices \<and> first_length peak_indices = Inr n_peaks \<and>
    \<not> int n_peaks < k \<and>
    values_at sp peak_indices = Inr peak_values \<and>
    take_items_each peak_indices (slice_from (np_argsort peak_values) (- k)) = Inr top_peaks \<and>
    ravel_multi_index top_peaks (shape (grid self) (search_grid self)) = Inr flattened \<and>
    take_items (source_placement (grid self) (search_grid self)) (sort flattened) = Inr est \<and>
    (if refine
     then \<exists>coords. unravel_index (sort flattened) (shape (grid self) (search_grid self)) = Inr coords \<and>
            refine_estimates self f_sp est coords default_density default_n_iters s1 = (Inr est', s')
     else est' = est \<and> s' = s1) \<and>
    r = (if rs then Triple_result True (Some est') (Some sp) else Pair_result True (Some est'))"
  using run res
  by (auto simp: estimate_def and_then_def attempt_def returns_def
        split: sum.splits prod.splits if_splits)


lemma argsort_length:
  assumes "argsort_ok np_argsort"
  shows "length (np_argsort v) = length v"
proof -
  from assms have "distinct (np_argsort v)" "set (np_argsort v) = {0..<length v}"
    by (simp_all add: argsort_ok_def)
  then have "length (np_argsort v) = card {0..<length v}"
    using distinct_card [of "np_argsort v"] by simp
  then show ?thesis by simp
qed

lemma slice_from_last:
  "1 \<le> k \<Longrightarrow> k \<le> int (length xs) \<Longrightarrow> slice_from xs (- k) = drop (length xs - nat k) xs"
  by (auto simp: slice_from_def slice_bound_def max_def nat_diff_distrib')

lemma slice_from_zero: "slice_from xs 0 = xs"
  by (simp add: slice_from_def slice_bound_def)

lemma top_k_largest:
  assumes ok: "argsort_ok np_argsort" and k: "1 \<le> k" "k \<le> int (length v)"
  shows "length (slice_from (np_argsort v) (- k)) = nat k \<and>
         distinct (slice_from (np_argsort v) (- k)) \<and>
         set (slice_from (np_argsort v) (- k)) \<subseteq> {0..<length v} \<and>
         (\<forall>a \<in> set (slice_from (np_argsort v) (- k)). \<forall>b < length v.
            b \<notin> set (slice_from (np_argsort v) (- k)) \<longrightarrow> v ! b \<le> v ! a)"
proof -
  define perm where "perm = np_argsort v"
  define cut where "cut = length v - nat k"
  have len: "length perm = length v" unfolding perm_def by (rule argsort_length [OF ok])
  have dist: "distinct perm" and all: "set perm = {0..<length v}"
    and asc: "sorted (map (\<lambda>i. v ! i) perm)"
    using ok by (simp_all add: argsort_ok_def perm_def)
  have top: "slice_from (np_argsort v) (- k) = drop cut perm"
    unfolding perm_def [symmetric] cut_def using slice_from_last [of k perm] k len by simp
  have cut_le: "cut \<le> length perm" using len by (simp add: cut_def)
  have l: "length (drop cut perm) = nat k" using k len by (simp add: cut_def)
  have d: "distinct (drop cut perm)" using dist by simp
  have sub: "set (drop cut perm) \<subseteq> {0..<length v}" using all set_drop_subset [of cut perm] by simp
  have big: "v ! b \<le> v ! a" if a: "a \<in> set (drop cut perm)" and b: "b < length v" "b \<notin> set (drop cut perm)" for a b
  proof -
    from b all have "b \<in> set perm" by simp
    moreover have "set perm = set (take cut perm) \<union> set (drop cut perm)"
      using set_append [of "take cut perm" "drop cut perm"] by simp
    ultimately have "b \<in> set (take cut perm)" using b(2) by blast
    then obtain ib where ib: "ib < cut" "ib < length perm" "perm ! ib = b"
      by (auto simp: in_set_conv_nth)
    from a obtain ia where ia: "ia < length perm - cut" "perm ! (cut + ia) = a"
      by (auto simp: in_set_conv_nth)
    have "map (\<lambda>i. v ! i) perm ! ib \<le> map (\<lambda>i. v ! i) perm ! (cut + ia)"
      using asc ib ia by (intro sorted_nth_mono) simp_all
    with ib ia show ?thesis by simp
  qed
  from l d sub big show ?thesis unfolding top by blast
qed


lemma reshape_Inr: "reshape xs shp = Inr sp \<Longrightarrow> nd_shape sp = shp \<and> nd_data sp = xs"
  by (auto simp: reshape_def split: if_splits)

lemma points_of_length: "first_length coords = Inr n \<Longrightarrow> length (points_of coords) = n"
  by (auto simp: first_length_def points_of_def split: list.splits)

lemma values_at_Inr:
  "values_at sp coords = Inr vals \<Longrightarrow>
     vals = map (\<lambda>p. nd_data sp ! ravel p (nd_shape sp)) (points_of coords)"
  by (auto simp: values_at_def split: if_splits)

lemma take_items_each_Inr:
  "take_items_each coords idx = Inr chosen \<Longrightarrow> chosen = map (\<lambda>axis. map (\<lambda>i. axis ! i) idx) coords"
  by (auto simp: take_items_each_def split: if_splits)

lemma ravel_multi_index_Inr:
  "ravel_multi_index coords shp = Inr flat \<Longrightarrow> flat = map (\<lambda>p. ravel p shp) (points_of coords)"
  by (auto simp: ravel_multi_index_def split: if_splits)

lemma take_items_Inr: "take_items xs idx = Inr ys \<Longrightarrow> ys = map (\<lambda>i. xs ! i) idx"
  by (auto simp: take_items_def split: if_splits)

lemma points_of_selected:
  assumes "first_length coords = Inr n" and "set idx \<subseteq> {0..<n}"
  shows "points_of (map (\<lambda>axis. map (\<lambda>i. axis ! i) idx) coords) = map (\<lambda>j. points_of coords ! j) idx"
proof -
  from assms(1) obtain a rest where c: "coords = a # rest" and n: "n = length a"
    by (auto simp: first_length_def split: list.splits)
  have "points_of (map (\<lambda>axis. map (\<lambda>i. axis ! i) idx) coords) =
        map (\<lambda>j. map (\<lambda>axis. axis ! (idx ! j)) coords) [0..<length idx]"
    by (simp add: points_of_def c)
  also have "\<dots> = map (\<lambda>j. map (\<lambda>axis. axis ! j) coords) idx"
    by (simp add: map_equality_iff)
  also have "\<dots> = map (\<lambda>j. points_of coords ! j) idx"
  proof (rule map_cong [OF refl])
    fix j assume "j \<in> set idx"
    with assms(2) n have "j < length a" by auto
    then show "map (\<lambda>axis. axis ! j) coords = points_of coords ! j"
      by (simp add: points_of_def c)
  qed
  finally show ?thesis .
qed

lemma rounds_length:
  assumes "for_each rounds (\<lambda>r. for_each todo (refine_step self f_sp density n_iters r)) (locs, gs) s =
             (Inr (locs', gs'), s')"
    and "distinct todo"
  shows "length locs' = length locs"
  using assms(1)
proof (induction rounds arbitrary: locs gs s)
  case Nil
  then show ?case by (simp add: returns_def)
next
  case (Cons r rounds)
  from Cons.prems obtain locs1 gs1 s1 where
    first: "for_each todo (refine_step self f_sp density n_iters r) (locs, gs) s = (Inr (locs1, gs1), s1)" and
    rest: "for_each rounds (\<lambda>r. for_each todo (refine_step self f_sp density n_iters r)) (locs1, gs1) s1 =
             (Inr (locs', gs'), s')"
    by (auto simp: and_then_Inr)
  from sweep_Inr [OF first assms(2)] have "length locs1 = length locs" by simp
  with Cons.IH [OF rest] show ?case by simp
qed

lemma refine_estimates_length:
  assumes "refine_estimates self f_sp est0 peak_indices density n_iters s = (Inr est, s')"
  shows "length est = length est0"
proof -
  from assms obtain subgrids gs' s0 where
    "for_each [0..<nat n_iters]
       (\<lambda>r. for_each [0..<length subgrids] (refine_step self f_sp density n_iters r))
       (est0, subgrids) s0 = (Inr (est, gs'), s')"
    by (auto simp: refine_estimates_def and_then_Inr emit_def attempt_def returns_def)
  then show ?thesis by (rule rounds_length) simp
qed


text \<open>
  Claim C1. Take a call with \<open>k \<ge> 1\<close> (the source counts the operation is specified for)
  that returns resolved. Then \<open>k\<close> of the detected peaks were selected, as positions \<open>sel\<close>
  in the peak set, no position twice, and every selected peak has a spectrum value at
  least that of every peak left out: they are \<open>k\<close> peaks with the \<open>k\<close> largest values. The
  estimates are the grid's points at the flattened indices of the selected peaks sorted
  in ascending order, whatever the order of their values; when refinement was asked
  for, these estimates are what the refinement received, with the coordinates of the
  sorted indices, and the result is what it returned. Either way there are exactly \<open>k\<close>
  estimates.
\<close>

theorem estimate_resolved_top_k:
  assumes ok: "argsort_ok np_argsort" and k: "1 \<le> k"
    and run: "estimate np_argsort self f_sp k rs refine d it s = (Inr r, s')"
    and res: "resolved r"
  shows "\<exists>A s1 sp peaks sel base est.
     get_steering_matrix self s = (Inr A, s1) \<and>
     (\<exists>sp_flat. f_sp A = Inr sp_flat \<and>
        reshape sp_flat (shape (grid self) (search_grid self)) = Inr sp) \<and>
     peak_finder self sp = Inr peaks \<and>
     length sel = nat k \<and> distinct sel \<and> set sel \<subseteq> {0..<length (points_of peaks)} \<and>
     (\<forall>a \<in> set sel. \<forall>b < length (points_of peaks). b \<notin> set sel \<longrightarrow>
        nd_data sp ! ravel (points_of peaks ! b) (nd_shape sp) \<le>
        nd_data sp ! ravel (points_of peaks ! a) (nd_shape sp)) \<and>
     sorted (sort (map (\<lambda>j. ravel (points_of peaks ! j) (shape (grid self) (search_grid self))) sel)) \<and>
     base = map (\<lambda>i. source_placement (grid self) (search_grid self) ! i)
              (sort (map (\<lambda>j. ravel (points_of peaks ! j) (shape (grid self) (search_grid self))) sel)) \<and>
     (if refine
      then \<exists>coords.
             unravel_index (sort (map (\<lambda>j. ravel (points_of peaks ! j) (shape (grid self) (search_grid self))) sel))
               (shape (grid self) (search_grid self)) = Inr coords \<and>
             refine_estimates self f_sp base coords default_density default_n_iters s1 = (Inr est, s')
      else est = base \<and> s' = s1) \<and>
     estimates r = Some est \<and> length est = nat k"
proof -
  let ?shp = "shape (grid self) (search_grid self)"
  from estimate_resolved_Inr [OF run res]
  obtain A s1 sp_flat sp peaks n_peaks peak_values top_peaks flattened base est where
    g: "get_steering_matrix self s = (Inr A, s1)" and f: "f_sp A = Inr sp_flat" and
    rs: "reshape sp_flat ?shp = Inr sp" and pf: "peak_finder self sp = Inr peaks" and
    fl: "first_length peaks = Inr n_peaks" and enough: "\<not> int n_peaks < k" and
    va: "values_at sp peaks = Inr peak_values" and
    ti: "take_items_each peaks (slice_from (np_argsort peak_values) (- k)) = Inr top_peaks" and
    rv: "ravel_multi_index top_peaks ?shp = Inr flattened" and
    tk: "take_items (source_placement (grid self) (search_grid self)) (sort flattened) = Inr base" and
    rf: "if refine
         then \<exists>coords. unravel_index (sort flattened) ?shp = Inr coords \<and>
                refine_estimates self f_sp base coords default_density default_n_iters s1 = (Inr est, s')
         else est = base \<and> s' = s1" and
    r: "r = (if rs then Triple_result True (Some est) (Some sp) else Pair_result True (Some est))"
    by blast
  define sel where "sel = slice_from (np_argsort peak_values) (- k)"
  have shp: "nd_shape sp = ?shp" using reshape_Inr [OF rs] by simp
  have n: "length (points_of peaks) = n_peaks" by (rule points_of_length [OF fl])
  have vals: "peak_values = map (\<lambda>p. nd_data sp ! ravel p (nd_shape sp)) (points_of peaks)"
    by (rule values_at_Inr [OF va])
  then have lv: "length peak_values = n_peaks" using n by simp
  with enough have kn: "k \<le> int (length peak_values)" by simp
  from top_k_largest [OF ok k kn]
  have sl: "length sel = nat k" and sd: "distinct sel" and ss: "set sel \<subseteq> {0..<length peak_values}"
    and big: "\<forall>a \<in> set sel. \<forall>b < length peak_values. b \<notin> set sel \<longrightarrow> peak_values ! b \<le> peak_values ! a"
    unfolding sel_def by blast+
  have ss': "set sel \<subseteq> {0..<length (points_of peaks)}" using ss lv n by simp
  have big': "\<forall>a \<in> set sel. \<forall>b < length (points_of peaks). b \<notin> set sel \<longrightarrow>
        nd_data sp ! ravel (points_of peaks ! b) (nd_shape sp) \<le>
        nd_data sp ! ravel (points_of peaks ! a) (nd_shape sp)"
  proof (intro ballI allI impI)
    fix a b assume a: "a \<in> set sel" and b: "b < length (points_of peaks)" "b \<notin> set sel"
    from a ss' have a': "a < length (points_of peaks)" by auto
    from big a b lv n have "peak_values ! b \<le> peak_values ! a" by simp
    with a' b(1) show "nd_data sp ! ravel (points_of peaks ! b) (nd_shape sp) \<le>
        nd_data sp ! ravel (points_of peaks ! a) (nd_shape sp)"
      by (simp add: vals)
  qed
  have top: "top_peaks = map (\<lambda>axis. map (\<lambda>i. axis ! i) sel) peaks"
    using take_items_each_Inr [OF ti] by (simp add: sel_def)
  have "points_of top_peaks = map (\<lambda>j. points_of peaks ! j) sel"
    unfolding top using ss lv by (intro points_of_selected [OF fl]) simp
  with ravel_multi_index_Inr [OF rv]
  have flat: "flattened = map (\<lambda>j. ravel (points_of peaks ! j) ?shp) sel"
    by (simp add: comp_def)
  have base: "base = map (\<lambda>i. source_placement (grid self) (search_grid self) ! i) (sort flattened)"
    by (rule take_items_Inr [OF tk])
  have lb: "length base = nat k" by (simp add: base flat sl)
  have le: "length est = nat k"
  proof (cases refine)
    case True
    with rf obtain coords where
      "refine_estimates self f_sp base coords default_density default_n_iters s1 = (Inr est, s')"
      by auto
    from refine_estimates_length [OF this] lb show ?thesis by simp
  next
    case False
    with rf lb show ?thesis by simp
  qed
  have er: "estimates r = Some est" by (simp add: r)
  have srt: "sorted (sort flattened)" by simp
  from g f rs pf sl sd ss' big' srt base rf er le show ?thesis
    unfolding flat by blast
qed


text \<open>
  A run with \<open>k = 3\<close> on four peaks of heights 3, 5, 1 and 4 at the grid indices 1, 3, 5
  and 7. The ranking by height puts the peaks in the order 5, 1, 7, 3; its last three are
  selected, and the estimates come back as 1, 3, 7, the order of the grid, which is
  neither the ascending nor the descending order of the heights.
\<close>

theorem estimate_resolved_top_k_witness:
  "argsort_ok stable_argsort \<and> (1::int) \<le> 3 \<and>
   four_peaks [0, 1, 2, 3, 4, 5, 6, 7, 8] = Inr [0, 3, 0, 5, 0, 1, 0, 4, 0] \<and>
   peak_finder wide_estimator \<lparr>nd_shape = [9], nd_data = [0, 3, 0, 5, 0, 1, 0, 4, 0]\<rparr> = Inr [[1, 3, 5, 7]] \<and>
   stable_argsort [3, 5, 1, 4] = [2, 0, 3, 1] \<and>
   estimate stable_argsort wide_estimator four_peaks 3 False False 10 3 fresh =
     (Inr (Pair_result True (Some [1, 3, 7])),
      \<lparr>cached_A = Some [0, 1, 2, 3, 4, 5, 6, 7, 8],
         trace = [SteeringCall [0, 1, 2, 3, 4, 5, 6, 7, 8] 1 ''known'']\<rparr>) \<and>
   resolved (Pair_result True (Some [1, 3, 7::real])) \<and>
   (\<exists>sel. length sel = nat 3 \<and> distinct sel \<and> set sel \<subseteq> {0..<length (points_of [[1, 3, 5, 7]])} \<and>
      sorted (sort (map (\<lambda>j. ravel (points_of [[1, 3, 5, 7]] ! j)
                                (shape (grid wide_estimator) (search_grid wide_estimator))) sel)) \<and>
      [1, 3, 7] = map (\<lambda>i. source_placement (grid wide_estimator) (search_grid wide_estimator) ! i)
                 (sort (map (\<lambda>j. ravel (points_of [[1, 3, 5, 7]] ! j)
                                  (shape (grid wide_estimator) (search_grid wide_estimator))) sel)))"
proof -
  let ?s' = "\<lparr>cached_A = Some [0, 1, 2, 3, 4, 5, 6, 7, 8],
         trace = [SteeringCall [0, 1, 2, 3, 4, 5, 6, 7, 8] 1 ''known'']\<rparr>"
  let ?sp = "\<lparr>nd_shape = [9], nd_data = [0, 3, 0, 5, 0, 1, 0, 4, 0]\<rparr>"
  have k: "(1::int) \<le> 3" by simp
  have g: "get_steering_matrix wide_estimator fresh = (Inr [0, 1, 2, 3, 4, 5, 6, 7, 8], ?s')"
    by code_simp
  have f: "four_peaks [0, 1, 2, 3, 4, 5, 6, 7, 8] = Inr [0, 3, 0, 5, 0, 1, 0, 4, 0]" by code_simp
  have rs: "reshape [0, 3, 0, 5, 0, 1, 0, 4, 0] (shape (grid wide_estimator) (search_grid wide_estimator)) = Inr ?sp"
    by code_simp
  have pf: "peak_finder wide_estimator ?sp = Inr [[1, 3, 5, 7]]" by code_simp
  have order: "stable_argsort [3, 5, 1, 4] = [2, 0, 3, 1]" by code_simp
  have run: "estimate stable_argsort wide_estimator four_peaks 3 False False 10 3 fresh =
     (Inr (Pair_result True (Some [1, 3, 7])), ?s')"
    by code_simp
  have res: "resolved (Pair_result True (Some [1, 3, 7::real]))" by simp
  from estimate_resolved_top_k [OF stable_argsort_ok k run res]
  obtain A s1 sp peaks sel base est sp_flat where
    g': "get_steering_matrix wide_estimator fresh = (Inr A, s1)" and
    f': "four_peaks A = Inr sp_flat" and
    rs': "reshape sp_flat (shape (grid wide_estimator) (search_grid wide_estimator)) = Inr sp" and
    pf': "peak_finder wide_estimator sp = Inr peaks" and
    sel: "length sel = nat 3" "distinct sel" "set sel \<subseteq> {0..<length (points_of peaks)}" and
    srt: "sorted (sort (map (\<lambda>j. ravel (points_of peaks ! j)
                                (shape (grid wide_estimator) (search_grid wide_estimator))) sel))" and
    base: "base = map (\<lambda>i. source_placement (grid wide_estimator) (search_grid wide_estimator) ! i)
              (sort (map (\<lambda>j. ravel (points_of peaks ! j)
                                  (shape (grid wide_estimator) (search_grid wide_estimator))) sel))" and
    rf: "if False then \<exists>coords.
             unravel_index (sort (map (\<lambda>j. ravel (points_of peaks ! j)
                                  (shape (grid wide_estimator) (search_grid wide_estimator))) sel))
               (shape (grid wide_estimator) (search_grid wide_estimator)) = Inr coords \<and>
             refine_estimates wide_estimator four_peaks base coords default_density default_n_iters s1 = (Inr est, ?s')
         else est = base \<and> ?s' = s1" and
    er: "estimates (Pair_result True (Some [1, 3, 7::real])) = Some est"
    by (elim exE conjE) (rule that)
  from g g' have A: "A = [0, 1, 2, 3, 4, 5, 6, 7, 8]" by simp
  from f f' A have "sp_flat = [0, 3, 0, 5, 0, 1, 0, 4, 0]" by simp
  with rs rs' have "sp = ?sp" by simp
  with pf pf' have peaks: "peaks = [[1, 3, 5, 7]]" by simp
  from rf er have est: "base = [1, 3, 7]" by simp
  have "\<exists>sel. length sel = nat 3 \<and> distinct sel \<and> set sel \<subseteq> {0..<length (points_of [[1, 3, 5, 7]])} \<and>
      sorted (sort (map (\<lambda>j. ravel (points_of [[1, 3, 5, 7]] ! j)
                                (shape (grid wide_estimator) (search_grid wide_estimator))) sel)) \<and>
      [1, 3, 7] = map (\<lambda>i. source_placement (grid wide_estimator) (search_grid wide_estimator) ! i)
                 (sort (map (\<lambda>j. ravel (points_of [[1, 3, 5, 7]] ! j)
                                  (shape (grid wide_estimator) (search_grid wide_estimator))) sel))"
    using sel srt base unfolding peaks est by (intro exI [of _ sel] conjI) assumption+
  with stable_argsort_ok k f pf order run res show ?thesis by (intro conjI) assumption+
qed

lemma estimate_unresolved_Inr:
  assumes "estimate np_argsort self f_sp k rs refine d it s = (Inr r, s')" and "\<not> resolved r"
  shows "\<exists>A s1 sp_flat sp peak_indices n_peaks.
    get_steering_matrix self s = (Inr A, s1) \<and> f_sp A = Inr sp_flat \<and>
    reshape sp_flat (shape (grid self) (search_grid self)) = Inr sp \<and>
    peak_finder self sp = Inr peak_indices \<and> first_length peak_indices = Inr n_peaks \<and>
    int n_peaks < k"
  using assms
  by (auto simp: estimate_def and_then_def attempt_def returns_def
        split: sum.splits prod.splits if_splits)

lemma sort_permuted:
  assumes "distinct perm" and "set perm = {0..<length xs}"
  shows "sort (map (\<lambda>j. f (xs ! j)) perm) = sort (map f xs)"
proof -
  have "mset perm = mset [0..<length xs]"
    using assms set_eq_iff_mset_eq_distinct [of perm "[0..<length xs]"] by simp
  then have "mset (map (\<lambda>j. f (xs ! j)) perm) = mset (map (\<lambda>j. f (xs ! j)) [0..<length xs])"
    by (simp only: mset_map)
  also have "map (\<lambda>j. f (xs ! j)) [0..<length xs] = map f xs"
    by (simp add: map_equality_iff)
  finally have "mset (map (\<lambda>j. f (xs ! j)) perm) = mset (map f xs)" .
  then have "mset (sort (map f xs)) = mset (map (\<lambda>j. f (xs ! j)) perm)" by simp
  then show ?thesis by (intro properties_for_sort) simp_all
qed

text \<open>
  Claim C9. A call with \<open>k = 0\<close> that returns never reports failure: the test
  \<^verbatim>\<open>n_peaks < k\<close> cannot hold. Its estimates are the grid's points at the flattened indices
  of all the detected peaks, in ascending order (handed to the refinement when that was
  asked for): as many estimates as peaks were detected, not zero.
\<close>

theorem estimate_zero_sources:
  assumes ok: "argsort_ok np_argsort"
    and run: "estimate np_argsort self f_sp 0 rs refine d it s = (Inr r, s')"
  shows "resolved r \<and>
    (\<exists>A s1 sp peaks base est.
       get_steering_matrix self s = (Inr A, s1) \<and>
       (\<exists>sp_flat. f_sp A = Inr sp_flat \<and>
          reshape sp_flat (shape (grid self) (search_grid self)) = Inr sp) \<and>
       peak_finder self sp = Inr peaks \<and>
       base = map (\<lambda>i. source_placement (grid self) (search_grid self) ! i)
                (sort (map (\<lambda>p. ravel p (shape (grid self) (search_grid self))) (points_of peaks))) \<and>
       (if refine
        then \<exists>coords.
               unravel_index (sort (map (\<lambda>p. ravel p (shape (grid self) (search_grid self))) (points_of peaks)))
                 (shape (grid self) (search_grid self)) = Inr coords \<and>
               refine_estimates self f_sp base coords default_density default_n_iters s1 = (Inr est, s')
        else est = base \<and> s' = s1) \<and>
       estimates r = Some est \<and> length est = length (points_of peaks))"
proof -
  let ?shp = "shape (grid self) (search_grid self)"
  have res: "resolved r"
  proof (rule ccontr)
    assume "\<not> resolved r"
    from estimate_unresolved_Inr [OF run this] show False by auto
  qed
  from estimate_resolved_Inr [OF run res]
  obtain A s1 sp_flat sp peaks n_peaks peak_values top_peaks flattened base est where
    g: "get_steering_matrix self s = (Inr A, s1)" and f: "f_sp A = Inr sp_flat" and
    rs: "reshape sp_flat ?shp = Inr sp" and pf: "peak_finder self sp = Inr peaks" and
    fl: "first_length peaks = Inr n_peaks" and
    va: "values_at sp peaks = Inr peak_values" and
    ti: "take_items_each peaks (slice_from (np_argsort peak_values) (- 0)) = Inr top_peaks" and
    rv: "ravel_multi_index top_peaks ?shp = Inr flattened" and
    tk: "take_items (source_placement (grid self) (search_grid self)) (sort flattened) = Inr base" and
    rf: "if refine
         then \<exists>coords. unravel_index (sort flattened) ?shp = Inr coords \<and>
                refine_estimates self f_sp base coords default_density default_n_iters s1 = (Inr est, s')
         else est = base \<and> s' = s1" and
    r: "r = (if rs then Triple_result True (Some est) (Some sp) else Pair_result True (Some est))"
    by blast
  define perm where "perm = np_argsort peak_values"
  have n: "length (points_of peaks) = n_peaks" by (rule points_of_length [OF fl])
  have vals: "peak_values = map (\<lambda>p. nd_data sp ! ravel p (nd_shape sp)) (points_of peaks)"
    by (rule values_at_Inr [OF va])
  then have lv: "length peak_values = length (points_of peaks)" by simp
  have pd: "distinct perm" and ps: "set perm = {0..<length (points_of peaks)}"
    using ok lv by (simp_all add: argsort_ok_def perm_def)
  have top: "top_peaks = map (\<lambda>axis. map (\<lambda>i. axis ! i) perm) peaks"
    using take_items_each_Inr [OF ti] by (simp add: perm_def slice_from_zero)
  have "points_of top_peaks = map (\<lambda>j. points_of peaks ! j) perm"
    unfolding top using ps n by (intro points_of_selected [OF fl]) simp
  with ravel_multi_index_Inr [OF rv]
  have flat: "flattened = map (\<lambda>j. ravel (points_of peaks ! j) ?shp) perm"
    by (simp add: comp_def)
  have srt: "sort flattened = sort (map (\<lambda>p. ravel p ?shp) (points_of peaks))"
    unfolding flat by (rule sort_permuted [OF pd ps])
  have base: "base = map (\<lambda>i. source_placement (grid self) (search_grid self) ! i) (sort flattened)"
    by (rule take_items_Inr [OF tk])
  have lb: "length base = length (points_of peaks)" by (simp add: base srt)
  have le: "length est = length (points_of peaks)"
  proof (cases refine)
    case True
    with rf obtain coords where
      "refine_estimates self f_sp base coords default_density default_n_iters s1 = (Inr est, s')"
      by auto
    from refine_estimates_length [OF this] lb show ?thesis by simp
  next
    case False
    with rf lb show ?thesis by simp
  qed
  have er: "estimates r = Some est" by (simp add: r)
  from g f rs pf base rf er le have "\<exists>A s1 sp peaks base est.
       get_steering_matrix self s = (Inr A, s1) \<and>
       (\<exists>sp_flat. f_sp A = Inr sp_flat \<and> reshape sp_flat ?shp = Inr sp) \<and>
       peak_finder self sp = Inr peaks \<and>
       base = map (\<lambda>i. source_placement (grid self) (search_grid self) ! i)
                (sort (map (\<lambda>p. ravel p ?shp) (points_of peaks))) \<and>
       (if refine
        then \<exists>coords.
               unravel_index (sort (map (\<lambda>p. ravel p ?shp) (points_of peaks))) ?shp = Inr coords \<and>
               refine_estimates self f_sp base coords default_density default_n_iters s1 = (Inr est, s')
        else est = base \<and> s' = s1) \<and>
       estimates r = Some est \<and> length est = length (points_of peaks)"
    unfolding srt by blast
  with res show ?thesis by blast
qed

theorem estimate_zero_sources_witness:
  "argsort_ok stable_argsort \<and>
   estimate stable_argsort (line_estimator True) two_peaks 0 False False 10 3 fresh =
     (Inr (Pair_result True (Some [1, 3])),
      \<lparr>cached_A = Some [0, 1, 2, 3, 4], trace = [SteeringCall [0, 1, 2, 3, 4] 1 ''known'']\<rparr>) \<and>
   resolved (Pair_result True (Some [1, 3::real]))"
proof -
  have run: "estimate stable_argsort (line_estimator True) two_peaks 0 False False 10 3 fresh =
     (Inr (Pair_result True (Some [1, 3])),
      \<lparr>cached_A = Some [0, 1, 2, 3, 4], trace = [SteeringCall [0, 1, 2, 3, 4] 1 ''known'']\<rparr>)"
    by code_simp
  from estimate_zero_sources [OF stable_argsort_ok run]
  have "resolved (Pair_result True (Some [1, 3::real]))" by (rule conjunct1)
  with stable_argsort_ok run show ?thesis by (intro conjI) assumption+
qed

section \<open>The refinement parameters of the estimation\<close>

text \<open>
  Claim C3 asks that the refinement run with the density and the number of iterations
  the caller passed to \<^verbatim>\<open>_estimate\<close>. The code passes neither on. Here the caller asks for
  density 7 and one iteration: the sub-grids are built with density 10, the default, and
  the location is written three times, once per default iteration.
\<close>

theorem estimate_refines_with_defaults:
  "\<exists>s'. estimate stable_argsort (line_estimator True) off_grid_peak 1 False True 7 1 fresh =
          (Inr (Pair_result True (Some [5 / 4])), s') \<and>
        take 2 (trace s') = [SteeringCall [0, 1, 2, 3, 4] 1 ''known'', CreateGridsCall [[1]] 10] \<and>
        grid_calls_of (trace s') = [([12], 10), ([15], 10)] \<and>
        writes_of (trace s') = [6 / 5, 5 / 4, 5 / 4]"
proof -
  let ?s' = "\<lparr>cached_A = Some [0, 1, 2, 3, 4],
     trace =
       [SteeringCall [0, 1, 2, 3, 4] 1 ''known'', CreateGridsCall [[1]] 10,
        SteeringCall
         [0, 1 / 10, 1 / 5, 3 / 10, 2 / 5, 1 / 2, 3 / 5, 7 / 10, 4 / 5,
          9 / 10, 1, 11 / 10, 6 / 5, 13 / 10, 7 / 5, 3 / 2, 8 / 5, 17 / 10,
          9 / 5, 19 / 10, 2]
         1 ''known'',
        LocationWrite 0 (6 / 5), CreateGridCall 0 [12] 10,
        SteeringCall
         [11 / 10, 111 / 100, 28 / 25, 113 / 100, 57 / 50, 23 / 20, 29 / 25,
          117 / 100, 59 / 50, 119 / 100, 6 / 5, 121 / 100, 61 / 50,
          123 / 100, 31 / 25, 5 / 4, 63 / 50, 127 / 100, 32 / 25, 129 / 100,
          13 / 10]
         1 ''known'',
        LocationWrite 0 (5 / 4), CreateGridCall 0 [15] 10,
        SteeringCall
         [31 / 25, 1241 / 1000, 621 / 500, 1243 / 1000, 311 / 250,
          249 / 200, 623 / 500, 1247 / 1000, 156 / 125, 1249 / 1000, 5 / 4,
          1251 / 1000, 313 / 250, 1253 / 1000, 627 / 500, 251 / 200,
          157 / 125, 1257 / 1000, 629 / 500, 1259 / 1000, 63 / 50]
         1 ''known'',
        LocationWrite 0 (5 / 4)]\<rparr>"
  have run: "estimate stable_argsort (line_estimator True) off_grid_peak 1 False True 7 1 fresh =
          (Inr (Pair_result True (Some [5 / 4])), ?s')"
    by code_simp
  show ?thesis
    by (rule exI [of _ ?s'], intro conjI, rule run) simp_all
qed

lemma estimate_refinement_parameters_unused:
  "estimate np_argsort self f_sp k rs refine d1 i1 = estimate np_argsort self f_sp k rs refine d2 i2"
  by (simp add: estimate_def)

section \<open>Further properties: the first maximum, and a call that returns\<close>

lemma ravel_less: "in_bounds p shp \<Longrightarrow> ravel p shp < prod_list shp"
proof (induction p arbitrary: shp)
  case Nil
  then show ?case by (simp add: in_bounds_def)
next
  case (Cons c cs)
  then obtain d ds where shp: "shp = d # ds" by (cases shp) (auto simp: in_bounds_def)
  with Cons.prems have c: "c < d" and rest: "in_bounds cs ds" by (simp_all add: in_bounds_def)
  from Cons.IH [OF rest] have r: "ravel cs ds < prod_list ds" .
  have "c * prod_list ds + ravel cs ds < c * prod_list ds + prod_list ds" using r by simp
  also have "\<dots> = Suc c * prod_list ds" by simp
  also have "\<dots> \<le> d * prod_list ds" using c by (intro mult_le_mono1) simp
  finally show ?case by (simp add: shp)
qed

lemma argmax_scan_first_maximum:
  "b < i \<Longrightarrow> argmax_scan xs i b v = j \<Longrightarrow>
     (j = b \<and> (\<forall>x \<in> set xs. x \<le> v)) \<or>
     (i \<le> j \<and> j < i + length xs \<and> v < xs ! (j - i) \<and>
      (\<forall>x \<in> set xs. x \<le> xs ! (j - i)) \<and> (\<forall>m < j - i. xs ! m < xs ! (j - i)))"
proof (induction xs i b v arbitrary: j rule: argmax_scan.induct)
  case (1 i best v)
  then show ?case by simp
next
  case (2 x xs i best v)
  show ?case
  proof (cases "v < x")
    case True
    with "2.prems" have run: "argmax_scan xs (Suc i) i x = j" by simp
    from "2.IH"(1) [OF True _ run]
    have "(j = i \<and> (\<forall>y \<in> set xs. y \<le> x)) \<or>
     (Suc i \<le> j \<and> j < Suc i + length xs \<and> x < xs ! (j - Suc i) \<and>
      (\<forall>y \<in> set xs. y \<le> xs ! (j - Suc i)) \<and> (\<forall>m < j - Suc i. xs ! m < xs ! (j - Suc i)))"
      by simp
    then show ?thesis
    proof
      assume "j = i \<and> (\<forall>y \<in> set xs. y \<le> x)"
      with True show ?thesis by auto
    next
      assume a: "Suc i \<le> j \<and> j < Suc i + length xs \<and> x < xs ! (j - Suc i) \<and>
        (\<forall>y \<in> set xs. y \<le> xs ! (j - Suc i)) \<and> (\<forall>m < j - Suc i. xs ! m < xs ! (j - Suc i))"
      then obtain d where d: "j - i = Suc d" "j - Suc i = d" by (cases "j - i") auto
      have "\<forall>m < Suc d. (x # xs) ! m < xs ! d"
      proof (intro allI impI)
        fix m assume "m < Suc d"
        then show "(x # xs) ! m < xs ! d" using a d by (cases m) auto
      qed
      with a d True show ?thesis by (auto simp: less_Suc_eq_0_disj)
    qed
  next
    case False
    with "2.prems" have run: "argmax_scan xs (Suc i) best v = j" by simp
    from "2.prems"(1) have "best < Suc i" by simp
    from "2.IH"(2) [OF False this run]
    have "(j = best \<and> (\<forall>y \<in> set xs. y \<le> v)) \<or>
     (Suc i \<le> j \<and> j < Suc i + length xs \<and> v < xs ! (j - Suc i) \<and>
      (\<forall>y \<in> set xs. y \<le> xs ! (j - Suc i)) \<and> (\<forall>m < j - Suc i. xs ! m < xs ! (j - Suc i)))" .
    then show ?thesis
    proof
      assume "j = best \<and> (\<forall>y \<in> set xs. y \<le> v)"
      with False show ?thesis by auto
    next
      assume a: "Suc i \<le> j \<and> j < Suc i + length xs \<and> v < xs ! (j - Suc i) \<and>
        (\<forall>y \<in> set xs. y \<le> xs ! (j - Suc i)) \<and> (\<forall>m < j - Suc i. xs ! m < xs ! (j - Suc i))"
      then obtain d where d: "j - i = Suc d" "j - Suc i = d" by (cases "j - i") auto
      have "\<forall>m < Suc d. (x # xs) ! m < xs ! d"
      proof (intro allI impI)
        fix m assume "m < Suc d"
        then show "(x # xs) ! m < xs ! d" using a d False by (cases m) auto
      qed
      moreover have "x \<le> xs ! d" using a d False by auto
      ultimately show ?thesis using a d by auto
    qed
  qed
qed

text \<open>
  \<open>argmax\<close> is numpy's: the position it returns holds a largest value, and every earlier
  position holds a smaller one.
\<close>

theorem argmax_first_maximum:
  assumes "argmax xs = Inr j"
  shows "j < length xs \<and> (\<forall>m < length xs. xs ! m \<le> xs ! j) \<and> (\<forall>m < j. xs ! m < xs ! j)"
proof -
  from assms obtain x rest where xs: "xs = x # rest" and run: "argmax_scan rest 1 0 x = j"
    by (auto simp: argmax_def split: list.splits)
  from argmax_scan_first_maximum [OF _ run]
  have "(j = 0 \<and> (\<forall>y \<in> set rest. y \<le> x)) \<or>
     (1 \<le> j \<and> j < 1 + length rest \<and> x < rest ! (j - 1) \<and>
      (\<forall>y \<in> set rest. y \<le> rest ! (j - 1)) \<and> (\<forall>m < j - 1. rest ! m < rest ! (j - 1)))"
    by simp
  then show ?thesis
  proof
    assume a: "j = 0 \<and> (\<forall>y \<in> set rest. y \<le> x)"
    have "\<forall>m < length xs. xs ! m \<le> xs ! j"
    proof (intro allI impI)
      fix m assume "m < length xs"
      then show "xs ! m \<le> xs ! j" using a xs by (cases m) auto
    qed
    with a xs show ?thesis by simp
  next
    assume a: "1 \<le> j \<and> j < 1 + length rest \<and> x < rest ! (j - 1) \<and>
      (\<forall>y \<in> set rest. y \<le> rest ! (j - 1)) \<and> (\<forall>m < j - 1. rest ! m < rest ! (j - 1))"
    then obtain d where d: "j = Suc d" by (cases j) auto
    have "\<forall>m < length xs. xs ! m \<le> xs ! j"
    proof (intro allI impI)
      fix m assume "m < length xs"
      then show "xs ! m \<le> xs ! j" using a xs d by (cases m) auto
    qed
    moreover have "\<forall>m < j. xs ! m < xs ! j"
    proof (intro allI impI)
      fix m assume "m < j"
      then show "xs ! m < xs ! j" using a xs d by (cases m) auto
    qed
    ultimately show ?thesis using a xs d by simp
  qed
qed

theorem argmax_first_maximum_witness:
  "argmax [1, 3, 2, 3] = Inr 1 \<and> (1::nat) < length [1, 3, 2, 3::real] \<and>
   [1, 3, 2, 3::real] ! 0 < [1, 3, 2, 3] ! 1"
proof -
  have run: "argmax [1, 3, 2, 3] = Inr 1" by code_simp
  from argmax_first_maximum [OF run]
  have a: "(1::nat) < length [1, 3, 2, 3::real]" and b: "\<forall>m < 1. [1, 3, 2, 3::real] ! m < [1, 3, 2, 3] ! 1"
    by blast+
  from b have "[1, 3, 2, 3::real] ! 0 < [1, 3, 2, 3] ! 1" by simp
  with run a show ?thesis by (intro conjI) assumption+
qed


lemma set_slice_from: "set (slice_from xs b) \<subseteq> set xs"
  unfolding slice_from_def by (rule set_drop_subset)

lemma same_lengths_first:
  assumes "same_lengths coords" and "first_length coords = Inr n" and "axis \<in> set coords"
  shows "length axis = n"
  using assms by (auto simp: same_lengths_def first_length_def list_all_iff split: list.splits)

text \<open>
  The estimation returns. When the steering matrix is obtained, the spectrum function
  returns a spectrum that fits the grid, the peak finder returns at least \<open>k\<close> peaks, one
  coordinate array per axis and every peak inside the grid, and the grid's placement has
  a location for every grid point, then a call without refinement raises nothing and
  returns resolved, in the state the steering-matrix getter left.
\<close>

theorem estimate_returns_resolved:
  assumes ok: "argsort_ok np_argsort"
    and g: "get_steering_matrix self s = (Inr A, s1)"
    and f: "f_sp A = Inr sp_flat"
    and rs: "reshape sp_flat (shape (grid self) (search_grid self)) = Inr sp"
    and pf: "peak_finder self sp = Inr peaks"
    and fl: "first_length peaks = Inr n_peaks"
    and enough: "k \<le> int n_peaks"
    and va: "values_at sp peaks = Inr peak_values"
    and cover: "prod_list (shape (grid self) (search_grid self)) \<le>
                length (source_placement (grid self) (search_grid self))"
  shows "\<exists>est. estimate np_argsort self f_sp k return_spectrum False d it s =
           (Inr (if return_spectrum then Triple_result True (Some est) (Some sp)
                 else Pair_result True (Some est)), s1)"
proof -
  let ?shp = "shape (grid self) (search_grid self)"
  let ?pl = "source_placement (grid self) (search_grid self)"
  define sel where "sel = slice_from (np_argsort peak_values) (- k)"
  define chosen where "chosen = map (\<lambda>axis. map (\<lambda>i. axis ! i) sel) peaks"
  define flattened where "flattened = map (\<lambda>p. ravel p ?shp) (points_of chosen)"
  have shp: "nd_shape sp = ?shp" using reshape_Inr [OF rs] by simp
  from va have arity: "length peaks = ndim sp" and same: "same_lengths peaks"
    and inb: "\<forall>p \<in> set (points_of peaks). in_bounds p (nd_shape sp)"
    by (auto simp: values_at_def list_all_iff split: if_splits)
  have n: "length (points_of peaks) = n_peaks" by (rule points_of_length [OF fl])
  have lv: "length peak_values = n_peaks" using values_at_Inr [OF va] n by simp
  have "set (np_argsort peak_values) = {0..<n_peaks}" using ok lv by (simp add: argsort_ok_def)
  with set_slice_from [of "np_argsort peak_values" "- k"]
  have sel: "set sel \<subseteq> {0..<n_peaks}" by (simp add: sel_def)
  have ti: "take_items_each peaks sel = Inr chosen"
  proof -
    have "list_all (\<lambda>axis. list_all (\<lambda>i. i < length axis) sel) peaks"
      unfolding list_all_iff
    proof (intro ballI)
      fix axis i assume "axis \<in> set peaks" "i \<in> set sel"
      with same_lengths_first [OF same fl] sel show "i < length axis" by auto
    qed
    then show ?thesis by (simp add: take_items_each_def chosen_def)
  qed
  have pts: "points_of chosen = map (\<lambda>j. points_of peaks ! j) sel"
    unfolding chosen_def by (rule points_of_selected [OF fl sel])
  have rv: "ravel_multi_index chosen ?shp = Inr flattened"
  proof -
    have a: "length chosen = length ?shp" using arity shp by (simp add: chosen_def ndim_def)
    have b: "same_lengths chosen"
      by (cases peaks) (simp_all add: chosen_def same_lengths_def list_all_iff)
    have c: "list_all (\<lambda>p. in_bounds p ?shp) (points_of chosen)"
      unfolding pts list_all_iff
    proof (intro ballI)
      fix p assume "p \<in> set (map (\<lambda>j. points_of peaks ! j) sel)"
      then obtain j where "j \<in> set sel" "p = points_of peaks ! j" by auto
      with sel n have "p \<in> set (points_of peaks)" by auto
      with inb shp show "in_bounds p ?shp" by simp
    qed
    from a b c show ?thesis by (simp add: ravel_multi_index_def flattened_def)
  qed
  have tk: "take_items ?pl (sort flattened) = Inr (map (\<lambda>i. ?pl ! i) (sort flattened))"
  proof -
    have "list_all (\<lambda>i. i < length ?pl) (sort flattened)"
      unfolding list_all_iff
    proof (intro ballI)
      fix i assume "i \<in> set (sort flattened)"
      then obtain p where p: "p \<in> set (points_of chosen)" "i = ravel p ?shp"
        by (auto simp: flattened_def)
      then obtain j where "j \<in> set sel" "p = points_of peaks ! j" unfolding pts by auto
      with sel n have "p \<in> set (points_of peaks)" by auto
      with inb shp have "in_bounds p ?shp" by simp
      from ravel_less [OF this] p cover show "i < length ?pl" by simp
    qed
    then show ?thesis by (simp add: take_items_def)
  qed
  have no: "\<not> int n_peaks < k" using enough by simp
  have "estimate np_argsort self f_sp k return_spectrum False d it s =
           (Inr (if return_spectrum
                 then Triple_result True (Some (map (\<lambda>i. ?pl ! i) (sort flattened))) (Some sp)
                 else Pair_result True (Some (map (\<lambda>i. ?pl ! i) (sort flattened)))), s1)"
    using g f rs pf fl no va ti [unfolded sel_def] rv tk
    by (simp add: estimate_def and_then_def attempt_def returns_def)
  then show ?thesis by blast
qed

theorem estimate_returns_resolved_witness:
  "argsort_ok stable_argsort \<and>
   get_steering_matrix (line_estimator True) fresh =
     (Inr [0, 1, 2, 3, 4], \<lparr>cached_A = Some [0, 1, 2, 3, 4], trace = [SteeringCall [0, 1, 2, 3, 4] 1 ''known'']\<rparr>) \<and>
   two_peaks [0, 1, 2, 3, 4] = Inr [0, 3, 0, 5, 0] \<and>
   reshape [0, 3, 0, 5, 0] (shape (grid (line_estimator True)) (search_grid (line_estimator True))) =
     Inr \<lparr>nd_shape = [5], nd_data = [0, 3, 0, 5, 0]\<rparr> \<and>
   peak_finder (line_estimator True) \<lparr>nd_shape = [5], nd_data = [0, 3, 0, 5, 0]\<rparr> = Inr [[1, 3]] \<and>
   first_length [[1, 3]] = Inr 2 \<and> (2::int) \<le> int 2 \<and>
   values_at \<lparr>nd_shape = [5], nd_data = [0, 3, 0, 5, 0]\<rparr> [[1, 3]] = Inr [3, 5] \<and>
   prod_list (shape (grid (line_estimator True)) (search_grid (line_estimator True))) \<le>
     length (source_placement (grid (line_estimator True)) (search_grid (line_estimator True))) \<and>
   (\<exists>est. estimate stable_argsort (line_estimator True) two_peaks 2 False False 10 3 fresh =
      (Inr (Pair_result True (Some est)),
       \<lparr>cached_A = Some [0, 1, 2, 3, 4], trace = [SteeringCall [0, 1, 2, 3, 4] 1 ''known'']\<rparr>))"
proof -
  have g: "get_steering_matrix (line_estimator True) fresh =
     (Inr [0, 1, 2, 3, 4], \<lparr>cached_A = Some [0, 1, 2, 3, 4], trace = [SteeringCall [0, 1, 2, 3, 4] 1 ''known'']\<rparr>)"
    by code_simp
  have f: "two_peaks [0, 1, 2, 3, 4] = Inr [0, 3, 0, 5, 0]" by code_simp
  have rs: "reshape [0, 3, 0, 5, 0] (shape (grid (line_estimator True)) (search_grid (line_estimator True))) =
     Inr \<lparr>nd_shape = [5], nd_data = [0, 3, 0, 5, 0]\<rparr>" by code_simp
  have pf: "peak_finder (line_estimator True) \<lparr>nd_shape = [5], nd_data = [0, 3, 0, 5, 0]\<rparr> = Inr [[1, 3]]"
    by code_simp
  have fl: "first_length [[1, 3]] = Inr 2" by code_simp
  have enough: "(2::int) \<le> int 2" by simp
  have va: "values_at \<lparr>nd_shape = [5], nd_data = [0, 3, 0, 5, 0]\<rparr> [[1, 3]] = Inr [3, 5]" by code_simp
  have cover: "prod_list (shape (grid (line_estimator True)) (search_grid (line_estimator True))) \<le>
     length (source_placement (grid (line_estimator True)) (search_grid (line_estimator True)))"
    by code_simp
  from estimate_returns_resolved [where f_sp = two_peaks and return_spectrum = False and d = 10 and it = 3,
      OF stable_argsort_ok g f rs pf fl enough va cover]
  have "\<exists>est. estimate stable_argsort (line_estimator True) two_peaks 2 False False 10 3 fresh =
      (Inr (Pair_result True (Some est)),
       \<lparr>cached_A = Some [0, 1, 2, 3, 4], trace = [SteeringCall [0, 1, 2, 3, 4] 1 ''known'']\<rparr>)"
    by simp
  with stable_argsort_ok g f rs pf fl enough va cover show ?thesis by (intro conjI) assumption+
qed

end
